theory Spec2Isabelle
  imports Complex_Main
begin

section \<open>Python values\<close>

text \<open>
  The data manager of \<^verbatim>\<open>reflectivity_ui/interfaces/data_manager.py\<close> is embedded as
  functions over an explicit state. Exceptions are values of type \<open>error\<close>; a method
  that can raise returns its outcome (\<open>Inl\<close> the exception) together with the state it
  leaves behind, since a Python exception does not undo the mutations made before it.

  Strings are ASCII strings. Floating-point arrays and angles are lists of real numbers
  and real numbers: a finite float is the real number it stands for, and the orders \<open>\<le>\<close>
  and \<open><\<close> of finite floats are those of the reals. The one float operation that rounds,
  the product in \<open>get_trim_values\<close>, is a parameter of that function. NaN and infinities
  are outside the model.
\<close>

datatype error =
  AttributeError | TypeError | ValueError | IndexError | KeyError | NameError | LoadError

text \<open>
  A run identifier is a Python \<open>int\<close> or a Python \<open>str\<close> (a single run number such as
  \<open>'1234'\<close> or a composite such as \<open>'1234+1245'\<close>).
\<close>

datatype RunId = IntId int | StrId string

subsection \<open>\<open>str.lower\<close>\<close>

definition lower_char :: "char \<Rightarrow> char" where
  "lower_char c =
     (case map_of (zip ''ABCDEFGHIJKLMNOPQRSTUVWXYZ'' ''abcdefghijklmnopqrstuvwxyz'') c of
        Some d \<Rightarrow> d
      | None \<Rightarrow> c)"

definition lower :: "string \<Rightarrow> string" where
  "lower s = map lower_char s"

subsection \<open>\<open>int(...)\<close> on a run identifier\<close>

text \<open>
  \<open>int(x)\<close> returns \<open>x\<close> for an \<open>int\<close>. For a \<open>str\<close> it strips surrounding whitespace,
  reads an optional sign and then decimal digits, where single underscores may stand
  between digits; anything else raises \<open>ValueError\<close>.
\<close>

definition is_space :: "char \<Rightarrow> bool" where
  "is_space c = (let n = of_char c :: nat in (9 \<le> n \<and> n \<le> 13) \<or> (28 \<le> n \<and> n \<le> 32))"

definition strip :: "string \<Rightarrow> string" where
  "strip s = rev (dropWhile is_space (rev (dropWhile is_space s)))"

definition digit_of :: "char \<Rightarrow> nat option" where
  "digit_of c = map_of (zip ''0123456789'' [0, 1, 2, 3, 4, 5, 6, 7, 8, 9]) c"

fun parse_digits :: "nat \<Rightarrow> string \<Rightarrow> nat option" where
  "parse_digits acc [] = Some acc"
| "parse_digits acc [c] =
     (case digit_of c of None \<Rightarrow> None | Some v \<Rightarrow> Some (10 * acc + v))"
| "parse_digits acc (c # d # ds) =
     (if c = CHR ''_'' then
        (case digit_of d of None \<Rightarrow> None | Some v \<Rightarrow> parse_digits (10 * acc + v) ds)
      else
        (case digit_of c of None \<Rightarrow> None | Some v \<Rightarrow> parse_digits (10 * acc + v) (d # ds)))"

definition parse_unsigned :: "string \<Rightarrow> nat option" where
  "parse_unsigned s =
     (case s of
        [] \<Rightarrow> None
      | c # cs \<Rightarrow> (case digit_of c of None \<Rightarrow> None | Some v \<Rightarrow> parse_digits v cs))"

definition parse_int :: "string \<Rightarrow> int option" where
  "parse_int s =
     (case strip s of
        [] \<Rightarrow> None
      | c # cs \<Rightarrow>
          if c = CHR ''-'' then map_option (\<lambda>n. - int n) (parse_unsigned cs)
          else if c = CHR ''+'' then map_option int (parse_unsigned cs)
          else map_option int (parse_unsigned (c # cs)))"

fun py_int :: "RunId \<Rightarrow> error + int" where
  "py_int (IntId n) = Inr n"
| "py_int (StrId s) = (case parse_int s of None \<Rightarrow> Inl ValueError | Some n \<Rightarrow> Inr n)"

subsection \<open>Indexing\<close>

text \<open>\<open>xs[i]\<close>: a negative index counts from the end, an index out of range raises.\<close>

definition py_index :: "'a list \<Rightarrow> int \<Rightarrow> error + 'a" where
  "py_index xs i =
     (if 0 \<le> i \<and> i < int (length xs) then Inr (xs ! nat i)
      else if i < 0 \<and> - int (length xs) \<le> i then Inr (xs ! nat (int (length xs) + i))
      else Inl IndexError)"

text \<open>\<open>d[k]\<close> on a dictionary, kept as an association list in insertion order.\<close>

definition py_getitem :: "('k \<times> 'v) list \<Rightarrow> 'k \<Rightarrow> error + 'v" where
  "py_getitem d k = (case map_of d k of None \<Rightarrow> Inl KeyError | Some v \<Rightarrow> Inr v)"

definition keys :: "('k \<times> 'v) list \<Rightarrow> 'k list" where
  "keys d = map fst d"

section \<open>Data model\<close>

text \<open>
  \<open>Configuration\<close>, \<open>CrossSectionData\<close> and \<open>NexusData\<close> are classes of the repository
  that the data manager imports; only the attributes it reads or writes are kept.
  The instrument reached through \<open>configuration.instrument\<close> is a parameter of the
  functions that call it (see \<open>externals\<close>).
\<close>

record Configuration =
  normalization :: "RunId option"
  match_direct_beam :: bool
  cut_first_n_points :: int
  cut_last_n_points :: int

text \<open>
  \<open>two_theta\<close> is the value of the \<open>two_theta\<close> run property of the channel's
  reflectivity workspace, \<open>None\<close> when the channel has no such workspace.
\<close>

record CrossSectionData =
  name :: string
  number :: RunId
  configuration :: "Configuration option"
  q :: "real list option"
  r :: "real list option"
  cross_section_label :: string
  two_theta :: "real option"

record NexusData =
  file_path :: string
  number :: RunId
  cross_sections :: "(string \<times> CrossSectionData) list"

text \<open>
  Measurements are objects with identity: the lists of the data manager hold references
  (addresses in \<open>heap\<close>), and \<open>==\<close> on measurements is equality of references.
  \<open>next_ref\<close> is the first address not yet given to an object. The active channel is a
  reference to a channel object: the address of its measurement and its key there.
\<close>

type_synonym ref = nat

record DataManager =
  heap :: "ref \<Rightarrow> NexusData"
  next_ref :: ref
  current_directory :: string
  current_file_name :: "string option"
  nexus_data :: "ref option"
  active_channel :: "(ref \<times> string) option"
  cache :: "ref list"
  reduction_list :: "ref list"
  direct_beam_list :: "ref list"
  reduction_states :: "string list"

definition MAX_CACHE :: nat where
  "MAX_CACHE = 50"

definition data_sets :: "DataManager \<Rightarrow> (string \<times> CrossSectionData) list option" where
  "data_sets s =
     (case nexus_data s of
        None \<Rightarrow> None
      | Some m \<Rightarrow> Some (cross_sections (heap s m)))"

text \<open>The object the active channel refers to.\<close>

definition the_active_channel :: "DataManager \<Rightarrow> CrossSectionData option" where
  "the_active_channel s =
     (case active_channel s of
        None \<Rightarrow> None
      | Some (m, k) \<Rightarrow> map_of (cross_sections (heap s m)) k)"

section \<open>Asymmetry states\<close>

definition is_off_off :: "string \<Rightarrow> bool" where
  "is_off_off item = (lower item \<in> set [''off_off'', ''off-off''])"

definition is_on_on :: "string \<Rightarrow> bool" where
  "is_on_on item = (lower item \<in> set [''on_on'', ''on-on''])"

text \<open>The two scanning loops of the branch for other than two states.\<close>

fun scan_names :: "string list \<Rightarrow> string option \<times> string option \<Rightarrow> string option \<times> string option" where
  "scan_names [] pm = pm"
| "scan_names (item # items) (p, m) =
     scan_names items
       (if is_off_off item then Some item else p, if is_on_on item then Some item else m)"

fun scan_labels ::
  "(string \<times> CrossSectionData) list option \<Rightarrow> string list \<Rightarrow> string option \<times> string option
     \<Rightarrow> error + (string option \<times> string option)" where
  "scan_labels ds [] pm = Inr pm"
| "scan_labels None (item # items) pm = Inl TypeError"
| "scan_labels (Some d) (item # items) (p, m) =
     (case py_getitem d item of
        Inl e \<Rightarrow> Inl e
      | Inr xs \<Rightarrow>
          scan_labels (Some d) items
            (if cross_section_label xs = ''++'' then Some item else p,
             if cross_section_label xs = ''--'' then Some item else m))"

definition determine_asymmetry_states ::
  "DataManager \<Rightarrow> error + (string option \<times> string option)" where
  "determine_asymmetry_states s =
     (let states = reduction_states s;
          fallback = (\<lambda>(p_state, m_state).
            if p_state = None \<and> m_state = None \<and> length states \<ge> 2
            then (Some (hd states), Some (last states))
            else (p_state, m_state))
      in
      if length states = 2 then
        (if is_off_off (states ! 0)
         then Inr (fallback (Some (states ! 0), Some (states ! 1)))
         else Inr (fallback (Some (states ! 1), Some (states ! 0))))
      else
        (case scan_names states (None, None) of
           (p_data, m_data) \<Rightarrow>
             if p_data = None \<or> m_data = None then
               (case scan_labels (data_sets s) states (None, None) of
                  Inl e \<Rightarrow> Inl e
                | Inr _ \<Rightarrow> Inr (fallback (None, None)))
             else Inr (fallback (None, None))))"

section \<open>External collaborators\<close>

text \<open>
  Code the data manager calls and that is not part of it. \<open>normalize_path p\<close> is
  \<open>FilePath(p, sort=True).path\<close> and \<open>split_path p\<close> is \<open>FilePath(p).split()\<close>.
  \<open>load_file p c u\<close> is \<open>NexusData(p, c).load(update_parameters=u)\<close>: the run number
  and the channels read from the files, or the exception raised, and the configuration
  object \<open>c\<close> as the loader leaves it. \<open>direct_beam_match a c skip_slits\<close> is the
  instrument's predicate, \<open>run_numbers n\<close> is \<open>RunNumbers(n).numbers\<close>, and
  \<open>calculate d direct_beam\<close> is the reflectivity calculator of a measurement with
  channels \<open>d\<close>: the exception raised, if any, and the channels as it leaves them.
  Progress reporting is left out (\<open>progress=None\<close>).
\<close>

record externals =
  normalize_path :: "string \<Rightarrow> string"
  split_path :: "string \<Rightarrow> string \<times> string"
  load_file ::
    "string \<Rightarrow> Configuration \<Rightarrow> bool
       \<Rightarrow> (error + RunId \<times> (string \<times> CrossSectionData) list) \<times> Configuration"
  direct_beam_match :: "CrossSectionData \<Rightarrow> CrossSectionData \<Rightarrow> bool \<Rightarrow> bool"
  run_numbers :: "RunId \<Rightarrow> error + int list"
  calculate ::
    "(string \<times> CrossSectionData) list \<Rightarrow> CrossSectionData option
       \<Rightarrow> error option \<times> (string \<times> CrossSectionData) list"

text \<open>The parameters the data manager sets, with their new values.\<close>

datatype parameter =
  P_normalization RunId | P_cut_first_n_points int | P_cut_last_n_points int

fun set_config :: "parameter \<Rightarrow> Configuration \<Rightarrow> Configuration" where
  "set_config (P_normalization v) c = c\<lparr>normalization := Some v\<rparr>"
| "set_config (P_cut_first_n_points v) c = c\<lparr>cut_first_n_points := v\<rparr>"
| "set_config (P_cut_last_n_points v) c = c\<lparr>cut_last_n_points := v\<rparr>"

text \<open>
  Modelled from the spec: \<open>NexusData.set_parameter\<close> is not in the source file. The
  spec has the data manager write the normalization identifier and the cut points
  "into the measurement's configuration", the per-measurement reduction parameters that
  every sub-dataset of the measurement carries.
\<close>

definition set_parameter :: "NexusData \<Rightarrow> parameter \<Rightarrow> NexusData" where
  "set_parameter nd p =
     nd\<lparr>cross_sections :=
          map (\<lambda>(k, xs). (k, xs\<lparr>configuration := map_option (set_config p) (configuration xs)\<rparr>))
            (cross_sections nd)\<rparr>"

text \<open>
  Modelled from the spec: \<open>NexusData.get_reflectivity_workspace_group\<close> is not in the
  source file. The scattering angle of a measurement is "two-theta taken from the
  measurement's first channel"; a measurement without channels has no first workspace.
\<close>

definition get_two_theta :: "NexusData \<Rightarrow> error + real" where
  "get_two_theta nd =
     (case cross_sections nd of
        [] \<Rightarrow> Inl IndexError
      | (k, xs) # _ \<Rightarrow> (case two_theta xs of None \<Rightarrow> Inl AttributeError | Some t \<Rightarrow> Inr t))"

section \<open>The data manager\<close>

text \<open>The default object of an address not yet in use, and \<open>DataManager.__init__\<close>.\<close>

definition no_data :: NexusData where
  "no_data = \<lparr>file_path = [], number = StrId [], cross_sections = []\<rparr>"

definition init :: "string \<Rightarrow> DataManager" where
  "init dir =
     \<lparr>heap = (\<lambda>_. no_data), next_ref = 0, current_directory = dir,
      current_file_name = None, nexus_data = None, active_channel = None, cache = [],
      reduction_list = [], direct_beam_list = [], reduction_states = []\<rparr>"

text \<open>\<open>for i in range(len(xs)): if P(xs[i]): return i\<close>, else \<open>None\<close>.\<close>

fun index_where :: "('a \<Rightarrow> bool) \<Rightarrow> 'a list \<Rightarrow> nat option" where
  "index_where P [] = None"
| "index_where P (x # xs) = (if P x then Some 0 else map_option Suc (index_where P xs))"

definition pop :: "'a list \<Rightarrow> nat \<Rightarrow> 'a list" where
  "pop xs i = take i xs @ drop (Suc i) xs"

definition find_data_in_reduction_list :: "DataManager \<Rightarrow> ref \<Rightarrow> nat option" where
  "find_data_in_reduction_list s m = index_where (\<lambda>x. m = x) (reduction_list s)"

definition find_data_in_direct_beam_list :: "DataManager \<Rightarrow> ref \<Rightarrow> nat option" where
  "find_data_in_direct_beam_list s m = index_where (\<lambda>x. m = x) (direct_beam_list s)"

definition set_channel :: "DataManager \<Rightarrow> nat \<Rightarrow> bool \<times> DataManager" where
  "set_channel s index =
     (case nexus_data s of
        None \<Rightarrow> (False, s)
      | Some m \<Rightarrow>
          let channels = keys (cross_sections (heap s m)) in
          if index < length channels then (True, s\<lparr>active_channel := Some (m, channels ! index)\<rparr>)
          else if length channels = 0 then (False, s)
          else (False, s\<lparr>active_channel := Some (m, channels ! 0)\<rparr>))"

subsection \<open>Compatibility and the reduction list\<close>

definition is_active_data_compatible :: "DataManager \<Rightarrow> error + bool" where
  "is_active_data_compatible s =
     (if reduction_list s = [] then Inr True
      else
        (case data_sets s of
           None \<Rightarrow> Inl AttributeError
         | Some d \<Rightarrow>
             if \<not> length (reduction_states s) = length (keys d) then Inr False
             else Inr (list_all (\<lambda>cross_section_state. cross_section_state \<in> set (reduction_states s))
                         (keys d))))"

text \<open>
  The scan that keeps the theta ordering: insert before the first entry whose angle is
  at least \<open>theta\<close>, append when there is none.
\<close>

fun insert_by_theta :: "(ref \<Rightarrow> NexusData) \<Rightarrow> real \<Rightarrow> ref \<Rightarrow> ref list \<Rightarrow> error + ref list" where
  "insert_by_theta h theta m [] = Inr [m]"
| "insert_by_theta h theta m (x # xs) =
     (case get_two_theta (h x) of
        Inl e \<Rightarrow> Inl e
      | Inr t \<Rightarrow>
          if theta \<le> t then Inr (m # x # xs)
          else (case insert_by_theta h theta m xs of Inl e \<Rightarrow> Inl e | Inr ys \<Rightarrow> Inr (x # ys)))"

definition add_active_to_reduction :: "DataManager \<Rightarrow> (error + bool) \<times> DataManager" where
  "add_active_to_reduction s =
     (if (case nexus_data s of None \<Rightarrow> False | Some m \<Rightarrow> m \<in> set (reduction_list s))
      then (Inr False, s)
      else
        (case is_active_data_compatible s of
           Inl e \<Rightarrow> (Inl e, s)
         | Inr False \<Rightarrow> (Inr False, s)
         | Inr True \<Rightarrow>
             (case nexus_data s of
                None \<Rightarrow> (Inl AttributeError, s)
              | Some m \<Rightarrow>
                  let s1 = (if length (reduction_list s) = 0
                            then s\<lparr>reduction_states := keys (cross_sections (heap s m))\<rparr>
                            else s)
                  in
                  (case get_two_theta (heap s m) of
                     Inl e \<Rightarrow> (Inl e, s1)
                   | Inr theta \<Rightarrow>
                       (case insert_by_theta (heap s) theta m (reduction_list s) of
                          Inl e \<Rightarrow> (Inl e, s1)
                        | Inr rl \<Rightarrow> (Inr True, s1\<lparr>reduction_list := rl\<rparr>))))))"

subsection \<open>Direct beams\<close>

text \<open>"convert to int if it can be"\<close>

definition coerce :: "RunId \<Rightarrow> RunId" where
  "coerce x = (case py_int x of Inr n \<Rightarrow> IntId n | Inl _ \<Rightarrow> x)"

fun scan_direct_beams ::
  "(ref \<Rightarrow> NexusData) \<Rightarrow> RunId \<Rightarrow> ref list \<Rightarrow> CrossSectionData option \<Rightarrow> CrossSectionData option" where
  "scan_direct_beams h run_number [] direct_beam = direct_beam"
| "scan_direct_beams h run_number (item # items) direct_beam =
     scan_direct_beams h run_number items
       (if coerce (NexusData.number (h item)) = coerce run_number then
          (case cross_sections (h item) of [] \<Rightarrow> direct_beam | (k, xs) # _ \<Rightarrow> Some xs)
        else direct_beam)"

text \<open>
  \<open>_find_direct_beam\<close> takes a measurement (\<open>Inl\<close>, a reference) or a channel (\<open>Inr\<close>).
\<close>

definition find_direct_beam :: "DataManager \<Rightarrow> ref + CrossSectionData \<Rightarrow> CrossSectionData option" where
  "find_direct_beam s arg =
     (case (case arg of
              Inl m \<Rightarrow> (case cross_sections (heap s m) of [] \<Rightarrow> None | (k, xs) # _ \<Rightarrow> Some xs)
            | Inr xs \<Rightarrow> Some xs) of
        None \<Rightarrow> None
      | Some data_xs \<Rightarrow>
          (case configuration data_xs of
             None \<Rightarrow> None
           | Some c \<Rightarrow>
               (case normalization c of
                  None \<Rightarrow> None
                | Some run_number \<Rightarrow> scan_direct_beams (heap s) run_number (direct_beam_list s) None)))"

definition closer :: "int \<Rightarrow> int \<Rightarrow> int option \<Rightarrow> int option" where
  "closer active_channel_number item_number closest =
     (case closest of
        None \<Rightarrow> Some item_number
      | Some c \<Rightarrow>
          if abs (item_number - active_channel_number) < abs (c - active_channel_number)
          then Some item_number else Some c)"

text \<open>Whether the first channel of \<open>item\<close> matches the active channel.\<close>

definition candidate_matches ::
  "externals \<Rightarrow> CrossSectionData \<Rightarrow> NexusData \<Rightarrow> bool \<Rightarrow> error + bool" where
  "candidate_matches ext active item skip_slits =
     (case cross_sections item of
        [] \<Rightarrow> Inr False
      | (k, channel) # _ \<Rightarrow>
          (case configuration active of
             None \<Rightarrow> Inl AttributeError
           | Some _ \<Rightarrow> Inr (direct_beam_match ext active channel skip_slits)))"

text \<open>
  The first loop carries \<open>closest\<close> and the variable \<open>item_number\<close>, assigned at the top
  of every iteration. The second loop does not assign \<open>item_number\<close>: it reads the value
  the first loop left.
\<close>

fun strict_pass ::
  "externals \<Rightarrow> (ref \<Rightarrow> NexusData) \<Rightarrow> CrossSectionData \<Rightarrow> int \<Rightarrow> ref list
     \<Rightarrow> int option \<times> int option \<Rightarrow> error + (int option \<times> int option)" where
  "strict_pass ext h active acn [] st = Inr st"
| "strict_pass ext h active acn (item # items) (closest, item_number) =
     (case py_int (NexusData.number (h item)) of
        Inl e \<Rightarrow> Inl e
      | Inr n \<Rightarrow>
          (case candidate_matches ext active (h item) False of
             Inl e \<Rightarrow> Inl e
           | Inr matches \<Rightarrow>
               strict_pass ext h active acn items
                 (if matches then closer acn n closest else closest, Some n)))"

fun relaxed_pass ::
  "externals \<Rightarrow> (ref \<Rightarrow> NexusData) \<Rightarrow> CrossSectionData \<Rightarrow> int \<Rightarrow> ref list
     \<Rightarrow> int option \<Rightarrow> int option \<Rightarrow> error + int option" where
  "relaxed_pass ext h active acn [] item_number closest = Inr closest"
| "relaxed_pass ext h active acn (item # items) item_number closest =
     (case candidate_matches ext active (h item) True of
        Inl e \<Rightarrow> Inl e
      | Inr matches \<Rightarrow>
          if matches then
            (case item_number of
               None \<Rightarrow> Inl NameError
             | Some n \<Rightarrow> relaxed_pass ext h active acn items item_number (closer acn n closest))
          else relaxed_pass ext h active acn items item_number closest)"

text \<open>The value of \<open>closest\<close> after both loops.\<close>

definition find_closest :: "externals \<Rightarrow> DataManager \<Rightarrow> error + int option" where
  "find_closest ext s =
     (case the_active_channel s of
        None \<Rightarrow> Inl AttributeError
      | Some active \<Rightarrow>
          (case run_numbers ext (CrossSectionData.number active) of
             Inl e \<Rightarrow> Inl e
           | Inr [] \<Rightarrow> Inl IndexError
           | Inr (active_channel_number # _) \<Rightarrow>
               (case strict_pass ext (heap s) active active_channel_number (direct_beam_list s)
                       (None, None) of
                  Inl e \<Rightarrow> Inl e
                | Inr (closest, item_number) \<Rightarrow>
                    if closest = None
                    then relaxed_pass ext (heap s) active active_channel_number
                           (direct_beam_list s) item_number None
                    else Inr closest)))"

text \<open>
  The result is what \<open>set_parameter\<close> returns; the spec has the event "reported as
  updated", which is \<open>True\<close> here.
\<close>

definition find_best_direct_beam :: "externals \<Rightarrow> DataManager \<Rightarrow> (error + bool) \<times> DataManager" where
  "find_best_direct_beam ext s =
     (case find_closest ext s of
        Inl e \<Rightarrow> (Inl e, s)
      | Inr None \<Rightarrow> (Inr False, s)
      | Inr (Some closest) \<Rightarrow>
          (case nexus_data s of
             None \<Rightarrow> (Inl AttributeError, s)
           | Some m \<Rightarrow>
               (Inr True,
                s\<lparr>heap := (heap s)(m := set_parameter (heap s m) (P_normalization (IntId closest)))\<rparr>)))"

text \<open>\<open>calculate_reflectivity()\<close> with its default arguments, as \<open>load\<close> calls it.\<close>

definition calculate_reflectivity :: "externals \<Rightarrow> DataManager \<Rightarrow> error option \<times> DataManager" where
  "calculate_reflectivity ext s =
     (case nexus_data s of
        None \<Rightarrow> (Some AttributeError, s)
      | Some m \<Rightarrow>
          (case calculate ext (cross_sections (heap s m)) (find_direct_beam s (Inl m)) of
             (e, d) \<Rightarrow> (e, s\<lparr>heap := (heap s)(m := (heap s m)\<lparr>cross_sections := d\<rparr>)\<rparr>)))"

subsection \<open>Trimming\<close>

text \<open>\<open>np.where(xs >= t)[0]\<close>: the indices of the entries that are at least \<open>t\<close>.\<close>

definition where_ge :: "real list \<Rightarrow> real \<Rightarrow> nat list" where
  "where_ge xs t = filter (\<lambda>i. xs ! i \<ge> t) [0..<length xs]"

text \<open>
  \<open>five_percent x\<close> is the product \<open>x * 0.05\<close> as line 561 computes it, in double
  precision with its rounding: it is not the exact product of the reals (the float
  product of 43.0 and 0.05 is the float 2.15, which is below the exact product).
\<close>

definition get_trim_values ::
  "(real \<Rightarrow> real) \<Rightarrow> DataManager \<Rightarrow> (error + (int \<times> int) option) \<times> DataManager" where
  "get_trim_values five_percent s =
     (case the_active_channel s of
        None \<Rightarrow> (Inr None, s)
      | Some active \<Rightarrow>
          if q active = None then (Inr None, s)
          else
            (case configuration active of
               None \<Rightarrow> (Inl AttributeError, s)
             | Some c \<Rightarrow>
                 if normalization c = None then (Inr None, s)
                 else
                   (case find_direct_beam s (Inr active) of
                      None \<Rightarrow> (Inr None, s)
                    | Some direct_beam \<Rightarrow>
                        (case r direct_beam of
                           None \<Rightarrow> (Inl AttributeError, s)
                         | Some rs \<Rightarrow>
                             if rs = [] then (Inl ValueError, s)
                             else
                               let region = where_ge rs (five_percent (Max (set rs))) in
                               if region = [] then (Inl IndexError, s)
                               else
                                 let p_0 = int (hd region);
                                     p_n = int (length rs) - int (last region) - 1
                                 in
                                 (case nexus_data s of
                                    None \<Rightarrow> (Inl AttributeError, s)
                                  | Some m \<Rightarrow>
                                      (Inr (Some (p_0, p_n)),
                                       s\<lparr>heap := (heap s)
                                           (m := set_parameter
                                                   (set_parameter (heap s m) (P_cut_first_n_points p_0))
                                                   (P_cut_last_n_points p_n))\<rparr>))))))"

text \<open>
  One iteration of the loop of \<open>strip_overlap\<close>, on the pair \<open>item\<close>, \<open>next_item\<close>:
  the value of \<open>n_points\<close>, \<open>None\<close> when \<open>overlap_idx[0]\<close> is empty.
\<close>

definition overlap_points :: "string \<Rightarrow> NexusData \<Rightarrow> NexusData \<Rightarrow> error + int option" where
  "overlap_points xs item next_item =
     (case py_getitem (cross_sections next_item) xs of
        Inl e \<Rightarrow> Inl e
      | Inr next_xs \<Rightarrow>
          (case configuration next_xs of
             None \<Rightarrow> Inl AttributeError
           | Some c \<Rightarrow>
               let end_idx = cut_first_n_points c in
               (case py_getitem (cross_sections item) xs of
                  Inl e \<Rightarrow> Inl e
                | Inr item_xs \<Rightarrow>
                    (case q next_xs of
                       None \<Rightarrow> Inl TypeError
                     | Some next_q \<Rightarrow>
                         (case py_index next_q end_idx of
                            Inl e \<Rightarrow> Inl e
                          | Inr t \<Rightarrow>
                              (case q item_xs of
                                 None \<Rightarrow> Inl TypeError
                               | Some item_q \<Rightarrow>
                                   let overlap_idx = where_ge item_q t in
                                   if length overlap_idx > 0
                                   then Inr (Some (int (length item_q) - int (hd overlap_idx)))
                                   else Inr None))))))"

definition strip_step ::
  "string \<Rightarrow> ref \<Rightarrow> ref \<Rightarrow> (ref \<Rightarrow> NexusData) \<Rightarrow> error + (ref \<Rightarrow> NexusData)" where
  "strip_step xs item next_item h =
     (case overlap_points xs (h item) (h next_item) of
        Inl e \<Rightarrow> Inl e
      | Inr None \<Rightarrow> Inr h
      | Inr (Some n_points) \<Rightarrow>
          Inr (h(item := set_parameter (h item) (P_cut_last_n_points n_points))))"

text \<open>
  \<open>for idx, item in enumerate(self.reduction_list[:-1])\<close> with
  \<open>next_item = self.reduction_list[idx + 1]\<close>: the adjacent pairs, in list order.
\<close>

fun strip_pairs :: "string \<Rightarrow> ref list \<Rightarrow> (ref \<Rightarrow> NexusData) \<Rightarrow> error option \<times> (ref \<Rightarrow> NexusData)" where
  "strip_pairs xs (item # next_item # rest) h =
     (case strip_step xs item next_item h of
        Inl e \<Rightarrow> (Some e, h)
      | Inr h' \<Rightarrow> strip_pairs xs (next_item # rest) h')"
| "strip_pairs xs _ h = (None, h)"

definition strip_overlap :: "DataManager \<Rightarrow> error option \<times> DataManager" where
  "strip_overlap s =
     (if length (reduction_list s) < 2 then (None, s)
      else
        (case the_active_channel s of
           None \<Rightarrow> (Some AttributeError, s)
         | Some active \<Rightarrow>
             (case strip_pairs (name active) (reduction_list s) (heap s) of
                (e, h) \<Rightarrow> (e, s\<lparr>heap := h\<rparr>))))"

subsection \<open>Loading\<close>

text \<open>\<open>while len(self._cache) >= self.MAX_CACHE: self._cache.pop(0)\<close>\<close>

function evict :: "ref list \<Rightarrow> ref list" where
  "evict c = (if length c \<ge> MAX_CACHE then evict (tl c) else c)"
  by pat_completeness auto
termination
  by (relation "measure length") (auto simp: MAX_CACHE_def)

declare evict.simps [simp del]

text \<open>
  The measurement \<open>m\<close> becomes the active one: \<open>self._nexus_data = nexus_data\<close>, the
  directory and file name of the path, and \<open>self.set_channel(0)\<close>.
\<close>

definition activate :: "externals \<Rightarrow> DataManager \<Rightarrow> string \<Rightarrow> ref \<Rightarrow> DataManager" where
  "activate ext s path m =
     snd (set_channel
            (s\<lparr>nexus_data := Some m,
               current_directory := fst (split_path ext path),
               current_file_name := Some (snd (split_path ext path))\<rparr>) 0)"

text \<open>The measurement \<open>m\<close> was found in the cache and \<open>force\<close> is off.\<close>

definition load_cached ::
  "externals \<Rightarrow> DataManager \<Rightarrow> string \<Rightarrow> Configuration \<Rightarrow> ref
     \<Rightarrow> (error + bool) \<times> DataManager \<times> Configuration" where
  "load_cached ext s path conf m = (Inr True, activate ext s path m, conf)"

text \<open>
  The end of the block \<open>if not is_from_cache\<close>: the places \<open>reduction_list_id\<close> and
  \<open>direct_beam_list_id\<close> of a cache entry that a forced reload replaces receive the new
  measurement \<open>m\<close>, the reflectivity is computed with any exception caught, and \<open>m\<close> is
  added to the cache.
\<close>

definition add_to_cache ::
  "externals \<Rightarrow> DataManager \<Rightarrow> ref \<Rightarrow> nat option \<Rightarrow> nat option \<Rightarrow> DataManager" where
  "add_to_cache ext s m reduction_list_id direct_beam_list_id =
     (let s1 = s\<lparr>reduction_list :=
                   (case reduction_list_id of
                      None \<Rightarrow> reduction_list s
                    | Some i \<Rightarrow> (reduction_list s)[i := m]),
                 direct_beam_list :=
                   (case direct_beam_list_id of
                      None \<Rightarrow> direct_beam_list s
                    | Some i \<Rightarrow> (direct_beam_list s)[i := m])\<rparr>;
          s2 = snd (calculate_reflectivity ext s1)
      in s2\<lparr>cache := evict (cache s2) @ [m]\<rparr>)"

text \<open>
  The measurement is read from file, into a new object at the address \<open>next_ref\<close>. The
  constructor keeps the path it is given, which \<open>load\<close> has normalised.
\<close>

definition load_new ::
  "externals \<Rightarrow> DataManager \<Rightarrow> string \<Rightarrow> Configuration \<Rightarrow> bool \<Rightarrow> nat option \<Rightarrow> nat option
     \<Rightarrow> (error + bool) \<times> DataManager \<times> Configuration" where
  "load_new ext s path conf update_parameters reduction_list_id direct_beam_list_id =
     (case load_file ext path (conf\<lparr>normalization := None\<rparr>) update_parameters of
        (Inl e, conf') \<Rightarrow> (Inl e, s, conf')
      | (Inr (num, channels), conf') \<Rightarrow>
          let m = next_ref s;
              s1 = s\<lparr>heap := (heap s)
                        (m := \<lparr>file_path = path, number = num, cross_sections = channels\<rparr>),
                     next_ref := Suc m\<rparr>;
              s2 = activate ext s1 path m
          in
          (case (if normalization conf' = None \<and> match_direct_beam conf'
                 then find_best_direct_beam ext s2 else (Inr False, s2)) of
             (Inl e, s3) \<Rightarrow> (Inl e, s3, conf')
           | (Inr _, s3) \<Rightarrow>
               (Inr False, add_to_cache ext s3 m reduction_list_id direct_beam_list_id, conf')))"

text \<open>
  \<open>load\<close> returns \<open>is_from_cache\<close> or the exception, the state, and the caller's
  configuration object as the call leaves it.
\<close>

definition load ::
  "externals \<Rightarrow> DataManager \<Rightarrow> string \<Rightarrow> Configuration \<Rightarrow> bool \<Rightarrow> bool
     \<Rightarrow> (error + bool) \<times> DataManager \<times> Configuration" where
  "load ext s path0 conf force update_parameters =
     (let path = normalize_path ext path0 in
      case index_where (\<lambda>m. file_path (heap s m) = path) (cache s) of
        None \<Rightarrow> load_new ext s path conf update_parameters None None
      | Some i \<Rightarrow>
          if force then
            load_new ext (s\<lparr>cache := pop (cache s) i\<rparr>) path conf update_parameters
              (find_data_in_reduction_list s (cache s ! i))
              (find_data_in_direct_beam_list s (cache s ! i))
          else load_cached ext s path conf (cache s ! i))"

section \<open>Sequences of additions\<close>

text \<open>
  The scattering angles of a list of measurements, \<open>None\<close> when one of them has none,
  and the order the reduction list is to keep.
\<close>

fun thetas :: "(ref \<Rightarrow> NexusData) \<Rightarrow> ref list \<Rightarrow> real list option" where
  "thetas h [] = Some []"
| "thetas h (m # ms) =
     (case get_two_theta (h m) of
        Inl e \<Rightarrow> None
      | Inr t \<Rightarrow> (case thetas h ms of None \<Rightarrow> None | Some ts \<Rightarrow> Some (t # ts)))"

definition ordered_by_theta :: "(ref \<Rightarrow> NexusData) \<Rightarrow> ref list \<Rightarrow> bool" where
  "ordered_by_theta h ms = (case thetas h ms of None \<Rightarrow> False | Some ts \<Rightarrow> sorted ts)"

text \<open>
  A sequence of successful additions: each measurement of the list is made the active
  one and added; \<open>None\<close> when an addition raises or returns \<open>False\<close>.
\<close>

fun add_all :: "DataManager \<Rightarrow> ref list \<Rightarrow> DataManager option" where
  "add_all s [] = Some s"
| "add_all s (m # ms) =
     (case add_active_to_reduction (s\<lparr>nexus_data := Some m\<rparr>) of
        (Inr True, s') \<Rightarrow> add_all s' ms
      | _ \<Rightarrow> None)"

section \<open>Sequences of loads\<close>

text \<open>
  A sequence of calls of \<open>load\<close>, each given by its path, configuration, \<open>force\<close> and
  \<open>update_parameters\<close>, in which every call returns \<open>is_from_cache = False\<close>: the
  measurement each call has loaded (the active one when it returns) with the state the
  call leaves. \<open>None\<close> when a call raises or is served from the cache.
\<close>

fun insertions ::
  "externals \<Rightarrow> DataManager \<Rightarrow> (string \<times> Configuration \<times> bool \<times> bool) list
     \<Rightarrow> (ref \<times> DataManager) list option" where
  "insertions ext s [] = Some []"
| "insertions ext s ((p, conf, force, u) # calls) =
     (case load ext s p conf force u of
        (Inr False, s', conf') \<Rightarrow>
          (case nexus_data s' of
             None \<Rightarrow> None
           | Some m \<Rightarrow> map_option (Cons (m, s')) (insertions ext s' calls))
      | _ \<Rightarrow> None)"

section \<open>Example data\<close>

text \<open>
  Concrete measurements and collaborators on which the theorems below are evaluated.
  \<open>ex_ext\<close> loads, for every path, a measurement with the single channel \<open>Off_Off\<close>;
  its instrument matches a candidate only when the slits are skipped, and only the
  candidate of run 15.
\<close>

definition ex_config :: Configuration where
  "ex_config = \<lparr>normalization = None, match_direct_beam = True,
                 cut_first_n_points = 0, cut_last_n_points = 0\<rparr>"

definition ex_channel :: "string \<Rightarrow> string \<Rightarrow> CrossSectionData" where
  "ex_channel key run =
     \<lparr>name = key, number = StrId run, configuration = Some ex_config, q = None, r = None,
      cross_section_label = key, two_theta = None\<rparr>"

definition ex_measurement :: "string \<Rightarrow> NexusData" where
  "ex_measurement run =
     \<lparr>file_path = run, number = StrId run,
      cross_sections = [(''Off_Off'', ex_channel ''Off_Off'' run)]\<rparr>"

definition ex_ext :: externals where
  "ex_ext =
     \<lparr>normalize_path = (\<lambda>p. p),
      split_path = (\<lambda>p. ([], p)),
      load_file = (\<lambda>p c u. (Inr (StrId p, [(''Off_Off'', ex_channel ''Off_Off'' p)]), c)),
      direct_beam_match =
        (\<lambda>a c skip_slits. skip_slits \<and> CrossSectionData.number c = StrId ''15''),
      run_numbers = (\<lambda>n. case py_int n of Inl e \<Rightarrow> Inl e | Inr k \<Rightarrow> Inr [k]),
      calculate = (\<lambda>d direct_beam. (None, d))\<rparr>"

text \<open>
  Two direct beams of runs \<open>a\<close> and \<open>b\<close> at addresses 0 and 1, and the active
  measurement of run \<open>act\<close> at address 2.
\<close>

definition ex_beams :: "string \<Rightarrow> string \<Rightarrow> string \<Rightarrow> DataManager" where
  "ex_beams a b act =
     (init [])\<lparr>heap := ((\<lambda>_. no_data)
                  (0 := ex_measurement a, 1 := ex_measurement b, 2 := ex_measurement act)),
               next_ref := 3, nexus_data := Some 2, active_channel := Some (2, ''Off_Off''),
               direct_beam_list := [0, 1]\<rparr>"

text \<open>
  A measurement with the given channel labels and scattering angle, and a state with four
  such measurements, none of them in the reduction list yet.
\<close>

definition ex_scan :: "string list \<Rightarrow> real \<Rightarrow> NexusData" where
  "ex_scan labels theta =
     \<lparr>file_path = [], number = StrId [],
      cross_sections = map (\<lambda>k. (k, (ex_channel k [])\<lparr>two_theta := Some theta\<rparr>)) labels\<rparr>"

definition ex_scans :: DataManager where
  "ex_scans =
     (init [])\<lparr>heap := ((\<lambda>_. no_data)
                  (0 := ex_scan [''Off_Off'', ''On_On''] (5 / 10),
                   1 := ex_scan [''Off_Off'', ''On_On''] (2 / 10),
                   2 := ex_scan [''On_On'', ''Off_Off''] (3 / 10),
                   3 := ex_scan [''Off_Off''] (4 / 10))),
               next_ref := 4\<rparr>"

lemmas ex_scan_defs =
  ex_scans_def ex_scan_def ex_channel_def ex_config_def init_def

text \<open>
  A direct beam of run 15 with the intensities \<open>rs\<close> at address 0, and at address 1 the
  active measurement of run 17, whose configuration names run 15 as its normalization.
\<close>

definition ex_beam_channel :: "real list \<Rightarrow> CrossSectionData" where
  "ex_beam_channel rs = (ex_channel ''Off_Off'' ''15'')\<lparr>r := Some rs\<rparr>"

definition ex_active_channel :: CrossSectionData where
  "ex_active_channel =
     (ex_channel ''Off_Off'' ''17'')
       \<lparr>configuration := Some (ex_config\<lparr>normalization := Some (IntId 15)\<rparr>),
        q := Some [1, 2, 3]\<rparr>"

definition ex_trim :: "real list \<Rightarrow> DataManager" where
  "ex_trim rs =
     (init [])\<lparr>heap := ((\<lambda>_. no_data)
                  (0 := \<lparr>file_path = [], number = StrId ''15'',
                         cross_sections = [(''Off_Off'', ex_beam_channel rs)]\<rparr>,
                   1 := \<lparr>file_path = [], number = StrId ''17'',
                         cross_sections = [(''Off_Off'', ex_active_channel)]\<rparr>)),
               next_ref := 2, nexus_data := Some 1, active_channel := Some (1, ''Off_Off''),
               direct_beam_list := [0]\<rparr>"

text \<open>
  The exact product with 5%. At the maxima used below it is the float product: 0.5 for
  the maximum 10 and 2 for the maximum 40.
\<close>

definition ex_five_percent :: "real \<Rightarrow> real" where
  "ex_five_percent x = x * 0.05"

text \<open>The same with an active channel whose reflectivity has not been computed.\<close>

definition ex_trim_unreduced :: "real list \<Rightarrow> DataManager" where
  "ex_trim_unreduced rs =
     (ex_trim rs)\<lparr>heap := (heap (ex_trim rs))
        (1 := \<lparr>file_path = [], number = StrId ''17'',
               cross_sections = [(''Off_Off'', ex_active_channel\<lparr>q := None\<rparr>)]\<rparr>)\<rparr>"

lemmas ex_trim_defs =
  ex_trim_def ex_beam_channel_def ex_active_channel_def init_def ex_channel_def ex_config_def

text \<open>
  Two measurements in the reduction list, with the q-arrays \<open>qs\<close> and \<open>qs'\<close> in their
  channel \<open>Off_Off\<close>; the first one is active.
\<close>

definition ex_q_scan :: "real list \<Rightarrow> NexusData" where
  "ex_q_scan qs =
     \<lparr>file_path = [], number = StrId [],
      cross_sections = [(''Off_Off'', (ex_channel ''Off_Off'' [])\<lparr>q := Some qs\<rparr>)]\<rparr>"

definition ex_overlap :: "real list \<Rightarrow> real list \<Rightarrow> DataManager" where
  "ex_overlap qs qs' =
     (init [])\<lparr>heap := ((\<lambda>_. no_data)(0 := ex_q_scan qs, 1 := ex_q_scan qs')),
               next_ref := 2, nexus_data := Some 0, active_channel := Some (0, ''Off_Off''),
               reduction_list := [0, 1]\<rparr>"

lemmas ex_overlap_defs =
  ex_overlap_def ex_q_scan_def init_def ex_channel_def ex_config_def

text \<open>
  The state after loading the path \<open>17\<close> into a new data manager, and a state whose
  cache holds a measurement of that path.
\<close>

definition ex_loaded :: DataManager where
  "ex_loaded = fst (snd (load ex_ext (init []) ''17'' ex_config False True))"

definition ex_cached :: DataManager where
  "ex_cached = (init [])\<lparr>heap := (\<lambda>_. no_data)(0 := ex_measurement ''17''),
                         next_ref := 1, cache := [0]\<rparr>"

lemmas load_defs =
  load_def load_new_def load_cached_def activate_def set_channel_def add_to_cache_def
  calculate_reflectivity_def find_direct_beam_def find_best_direct_beam_def find_closest_def
  the_active_channel_def keys_def

text \<open>Fifty-one calls of \<open>load\<close> with distinct paths, none asking for a direct beam.\<close>

definition ex_calls :: "(string \<times> Configuration \<times> bool \<times> bool) list" where
  "ex_calls =
     map (\<lambda>c. ([c], ex_config\<lparr>match_direct_beam := False\<rparr>, False, True))
       ''abcdefghijklmnopqrstuvwxyzABCDEFGHIJKLMNOPQRSTUVWXY''"

lemmas py_int_defs =
  parse_int_def strip_def is_space_def parse_unsigned_def digit_of_def

lemmas ex_defs =
  ex_beams_def init_def ex_measurement_def ex_channel_def ex_ext_def ex_config_def

section \<open>Asymmetry states: results\<close>

text \<open>
  C7, as stated: with exactly two channel labels, the "plus" state is the label that does
  not match the off-off naming convention. The code returns the matching label as "plus":
  for the states \<open>['Off_Off', 'On_On']\<close> the result is \<open>('Off_Off', 'On_On')\<close>.
\<close>

theorem determine_asymmetry_states_plus_counterexample:
  "length (reduction_states ((init [])\<lparr>reduction_states := [''Off_Off'', ''On_On'']\<rparr>)) = 2
   \<and> is_off_off ''Off_Off'' \<and> \<not> is_off_off ''On_On''
   \<and> determine_asymmetry_states ((init [])\<lparr>reduction_states := [''Off_Off'', ''On_On'']\<rparr>)
       = Inr (Some ''Off_Off'', Some ''On_On'')"
  by (simp add: determine_asymmetry_states_def is_off_off_def lower_def lower_char_def)

text \<open>
  C7, amended: with exactly two channel labels \<open>[a, b]\<close>, the "plus" state is \<open>a\<close> and the
  "minus" state \<open>b\<close> when \<open>a\<close> matches the off-off naming convention; otherwise "plus" is
  \<open>b\<close> and "minus" is \<open>a\<close>. So "plus" is the label that matches the convention when
  exactly one of the two does.
\<close>

theorem determine_asymmetry_states_two:
  assumes "reduction_states s = [a, b]"
  shows "determine_asymmetry_states s =
           Inr (if is_off_off a then (Some a, Some b) else (Some b, Some a))"
  using assms by (simp add: determine_asymmetry_states_def)

theorem determine_asymmetry_states_two_witness:
  "reduction_states ((init [])\<lparr>reduction_states := [''On_On'', ''Off-Off'']\<rparr>)
     = [''On_On'', ''Off-Off'']
   \<and> determine_asymmetry_states ((init [])\<lparr>reduction_states := [''On_On'', ''Off-Off'']\<rparr>)
       = Inr (Some ''Off-Off'', Some ''On_On'')"
  using determine_asymmetry_states_two
          [of "(init [])\<lparr>reduction_states := [''On_On'', ''Off-Off'']\<rparr>" "''On_On''" "''Off-Off''"]
  by (simp add: is_off_off_def lower_def lower_char_def)

section \<open>Direct-beam matching: results\<close>

text \<open>
  C3: the relaxed pass is to select, among the candidates that match with the slits
  skipped, the run number nearest to the active one. With direct beams of runs 15 and 20,
  the active run 17 and an instrument that matches only run 15, and only in the relaxed
  pass, the strict pass finds nothing and the relaxed pass yields 20, the run number of
  the last entry of the list: the second loop never assigns \<open>item_number\<close>.
\<close>

theorem find_best_direct_beam_relaxed_stale_run_number:
  "find_closest ex_ext (ex_beams ''15'' ''20'' ''17'') = Inr (Some 20)
   \<and> find_best_direct_beam ex_ext (ex_beams ''15'' ''20'' ''17'')
       = (Inr True,
          (ex_beams ''15'' ''20'' ''17'')
            \<lparr>heap := (heap (ex_beams ''15'' ''20'' ''17''))
               (2 := set_parameter (ex_measurement ''17'') (P_normalization (IntId 20)))\<rparr>)
   \<and> candidate_matches ex_ext (ex_channel ''Off_Off'' ''17'') (ex_measurement ''15'') True = Inr True
   \<and> candidate_matches ex_ext (ex_channel ''Off_Off'' ''17'') (ex_measurement ''20'') True = Inr False
   \<and> candidate_matches ex_ext (ex_channel ''Off_Off'' ''17'') (ex_measurement ''15'') False = Inr False"
  by (simp add: find_best_direct_beam_def find_closest_def the_active_channel_def ex_defs
        py_int_defs candidate_matches_def closer_def)

text \<open>
  C8: run identifiers that do not parse as integers must not make the comparison raise.
  \<open>_find_direct_beam\<close> converts with a fallback to the raw token, and resolves the
  direct beam merged from the runs 38198 and 38199 by its token; \<open>find_best_direct_beam\<close>
  converts the run identifier of every direct beam with a bare \<open>int(...)\<close>, and the same
  direct beam makes it raise \<open>ValueError\<close>.
\<close>

theorem find_best_direct_beam_raises_on_composite_run:
  "fst (find_best_direct_beam ex_ext (ex_beams ''15'' ''38198+38199'' ''17'')) = Inl ValueError
   \<and> py_int (StrId ''38198+38199'') = Inl ValueError
   \<and> find_direct_beam (ex_beams ''15'' ''38198+38199'' ''17'')
         (Inr ((ex_channel ''Off_Off'' ''17'')
                 \<lparr>configuration :=
                    Some (ex_config\<lparr>normalization := Some (StrId ''38198+38199'')\<rparr>)\<rparr>))
       = Some (ex_channel ''Off_Off'' ''38198+38199'')"
  by (simp add: find_best_direct_beam_def find_closest_def find_direct_beam_def coerce_def
        the_active_channel_def ex_defs py_int_defs candidate_matches_def closer_def)

section \<open>The reduction list: results\<close>

lemma same_keys:
  assumes "distinct ks" "set ks \<subseteq> set ss" "length ss = length ks"
  shows "set ks = set ss"
proof (rule card_seteq)
  show "finite (set ss)" by simp
  show "set ks \<subseteq> set ss" by fact
  have "card (set ss) \<le> length ss" by (rule card_length)
  also have "\<dots> = card (set ks)" using assms by (simp add: distinct_card)
  finally show "card (set ss) \<le> card (set ks)" .
qed

lemma compatible_same_keys:
  assumes "is_active_data_compatible s = Inr True" "reduction_list s \<noteq> []"
    "nexus_data s = Some m" "distinct (keys (cross_sections (heap s m)))"
  shows "set (keys (cross_sections (heap s m))) = set (reduction_states s)"
proof -
  let ?ks = "keys (cross_sections (heap s m))"
  from assms have len: "length (reduction_states s) = length ?ks"
    and sub: "set ?ks \<subseteq> set (reduction_states s)"
    by (auto simp: is_active_data_compatible_def data_sets_def list_all_iff split: if_splits)
  from same_keys [OF assms(4) sub len] show ?thesis .
qed

text \<open>
  C4: adding the active measurement returns \<open>False\<close> and changes nothing when the
  measurement is already in the reduction list, or when the list is not empty and the
  set of the measurement's channel labels differs from the set \<open>reduction_states\<close>.
  The keys of a dictionary are distinct.
\<close>

theorem add_active_to_reduction_rejects:
  assumes "nexus_data s = Some m"
    and "distinct (keys (cross_sections (heap s m)))"
    and "m \<in> set (reduction_list s)
         \<or> (reduction_list s \<noteq> []
            \<and> set (keys (cross_sections (heap s m))) \<noteq> set (reduction_states s))"
  shows "add_active_to_reduction s = (Inr False, s)"
proof (cases "m \<in> set (reduction_list s)")
  case True
  with assms(1) show ?thesis by (simp add: add_active_to_reduction_def)
next
  case False
  with assms(3) have ne: "reduction_list s \<noteq> []"
    and diff: "set (keys (cross_sections (heap s m))) \<noteq> set (reduction_states s)" by auto
  have "\<exists>b. is_active_data_compatible s = Inr b"
    using ne assms(1) by (auto simp: is_active_data_compatible_def data_sets_def)
  then obtain b where b: "is_active_data_compatible s = Inr b" ..
  have "\<not> b" using compatible_same_keys [OF _ ne assms(1,2)] b diff by auto
  with b False assms(1) show ?thesis by (simp add: add_active_to_reduction_def)
qed

theorem add_active_to_reduction_rejects_witness:
  "add_active_to_reduction
     (ex_scans\<lparr>nexus_data := Some 3, reduction_list := [1, 0],
               reduction_states := [''Off_Off'', ''On_On'']\<rparr>)
     = (Inr False,
        ex_scans\<lparr>nexus_data := Some 3, reduction_list := [1, 0],
                  reduction_states := [''Off_Off'', ''On_On'']\<rparr>)
   \<and> add_active_to_reduction
     (ex_scans\<lparr>nexus_data := Some 0, reduction_list := [1, 0],
               reduction_states := [''Off_Off'', ''On_On'']\<rparr>)
     = (Inr False,
        ex_scans\<lparr>nexus_data := Some 0, reduction_list := [1, 0],
                  reduction_states := [''Off_Off'', ''On_On'']\<rparr>)"
proof
  let ?s = "ex_scans\<lparr>nexus_data := Some 3, reduction_list := [1, 0],
                      reduction_states := [''Off_Off'', ''On_On'']\<rparr>"
  have "nexus_data ?s = Some 3" by simp
  moreover have "distinct (keys (cross_sections (heap ?s 3)))"
    by (simp add: ex_scan_defs keys_def)
  moreover have "reduction_list ?s \<noteq> []
      \<and> set (keys (cross_sections (heap ?s 3))) \<noteq> set (reduction_states ?s)"
    by (auto simp: ex_scan_defs keys_def)
  ultimately show "add_active_to_reduction ?s = (Inr False, ?s)"
    using add_active_to_reduction_rejects [of ?s 3] by blast
next
  let ?s = "ex_scans\<lparr>nexus_data := Some 0, reduction_list := [1, 0],
                      reduction_states := [''Off_Off'', ''On_On'']\<rparr>"
  have "nexus_data ?s = Some 0" by simp
  moreover have "distinct (keys (cross_sections (heap ?s 0)))"
    by (simp add: ex_scan_defs keys_def)
  moreover have "0 \<in> set (reduction_list ?s)" by simp
  ultimately show "add_active_to_reduction ?s = (Inr False, ?s)"
    using add_active_to_reduction_rejects [of ?s 0] by blast
qed

lemma insert_by_theta_position:
  "insert_by_theta h theta m xs = Inr ys \<Longrightarrow>
     \<exists>i\<le>length xs. ys = take i xs @ m # drop i xs
       \<and> (\<forall>j<i. \<exists>t. get_two_theta (h (xs ! j)) = Inr t \<and> t < theta)
       \<and> (i < length xs \<longrightarrow> (\<exists>t. get_two_theta (h (xs ! i)) = Inr t \<and> theta \<le> t))"
proof (induction xs arbitrary: ys)
  case Nil
  then show ?case by simp
next
  case (Cons x xs)
  from Cons.prems obtain t where t: "get_two_theta (h x) = Inr t"
    by (auto split: sum.splits)
  show ?case
  proof (cases "theta \<le> t")
    case True
    with Cons.prems t have "ys = m # x # xs" by simp
    with t True show ?thesis by (intro exI [of _ 0]) simp
  next
    case False
    with Cons.prems t obtain zs where zs: "insert_by_theta h theta m xs = Inr zs" "ys = x # zs"
      by (auto split: sum.splits)
    from Cons.IH [OF zs(1)] obtain i where i: "i \<le> length xs" "zs = take i xs @ m # drop i xs"
      "\<forall>j<i. \<exists>t. get_two_theta (h (xs ! j)) = Inr t \<and> t < theta"
      "i < length xs \<longrightarrow> (\<exists>t. get_two_theta (h (xs ! i)) = Inr t \<and> theta \<le> t)" by blast
    have "\<forall>j<Suc i. \<exists>t. get_two_theta (h ((x # xs) ! j)) = Inr t \<and> t < theta"
      using i(3) t False by (auto simp: less_Suc_eq_0_disj)
    with i zs(2) show ?thesis by (intro exI [of _ "Suc i"]) simp
  qed
qed

lemma thetas_insert:
  assumes "insert_by_theta h theta m xs = Inr ys" "get_two_theta (h m) = Inr theta"
    "thetas h xs = Some ts" "sorted ts"
  shows "\<exists>us. thetas h ys = Some us \<and> sorted us \<and> set us = insert theta (set ts)"
  using assms
proof (induction xs arbitrary: ys ts)
  case Nil
  then show ?case by auto
next
  case (Cons x xs)
  from Cons.prems(3) obtain t ts' where t: "get_two_theta (h x) = Inr t"
    "thetas h xs = Some ts'" "ts = t # ts'"
    by (auto split: sum.splits option.splits)
  show ?case
  proof (cases "theta \<le> t")
    case True
    with Cons.prems t have "ys = m # x # xs" by simp
    with Cons.prems t True show ?thesis by auto
  next
    case False
    with Cons.prems t obtain zs where zs: "insert_by_theta h theta m xs = Inr zs" "ys = x # zs"
      by (auto split: sum.splits)
    from Cons.prems(4) t(3) have "sorted ts'" by simp
    from Cons.IH [OF zs(1) Cons.prems(2) t(2) this]
    obtain us where us: "thetas h zs = Some us" "sorted us" "set us = insert theta (set ts')"
      by blast
    with zs(2) t Cons.prems(4) False show ?thesis by auto
  qed
qed

lemma add_active_to_reduction_True:
  assumes "add_active_to_reduction s = (Inr True, s')"
  shows "\<exists>m theta rl. nexus_data s = Some m \<and> get_two_theta (heap s m) = Inr theta
           \<and> insert_by_theta (heap s) theta m (reduction_list s) = Inr rl
           \<and> reduction_list s' = rl \<and> heap s' = heap s"
  using assms
  by (auto simp: add_active_to_reduction_def Let_def
           split: if_splits sum.splits bool.splits option.splits)

lemma add_active_to_reduction_keeps_order:
  assumes "add_active_to_reduction s = (Inr True, s')"
    "ordered_by_theta (heap s) (reduction_list s)"
  shows "ordered_by_theta (heap s') (reduction_list s')"
proof -
  from add_active_to_reduction_True [OF assms(1)] obtain m theta where
    m: "get_two_theta (heap s m) = Inr theta"
       "insert_by_theta (heap s) theta m (reduction_list s) = Inr (reduction_list s')"
       "heap s' = heap s" by auto
  from assms(2) obtain ts where ts: "thetas (heap s) (reduction_list s) = Some ts" "sorted ts"
    by (auto simp: ordered_by_theta_def split: option.splits)
  from thetas_insert [OF m(2) m(1) ts] m(3) show ?thesis
    by (auto simp: ordered_by_theta_def)
qed

lemma add_all_keeps_order:
  "add_all s ms = Some s' \<Longrightarrow> ordered_by_theta (heap s) (reduction_list s)
     \<Longrightarrow> ordered_by_theta (heap s') (reduction_list s')"
proof (induction ms arbitrary: s)
  case Nil
  then show ?case by simp
next
  case (Cons m ms)
  from Cons.prems(1) obtain s1 where
    s1: "add_active_to_reduction (s\<lparr>nexus_data := Some m\<rparr>) = (Inr True, s1)"
        "add_all s1 ms = Some s'"
    by (auto split: prod.splits sum.splits bool.splits)
  have "ordered_by_theta (heap s1) (reduction_list s1)"
    using add_active_to_reduction_keeps_order [OF s1(1)] Cons.prems(2) by simp
  from Cons.IH [OF s1(2) this] show ?case .
qed

text \<open>
  C2: a successful addition puts the active measurement at the first index whose angle
  is at least the new angle, at the end when there is none; and a sequence of successful
  additions keeps the reduction list in non-decreasing order of angle (an empty list is
  in order).
\<close>

theorem add_active_to_reduction_ordered:
  "(add_active_to_reduction s = (Inr True, s') \<longrightarrow>
      (\<exists>m theta i. nexus_data s = Some m \<and> get_two_theta (heap s m) = Inr theta
         \<and> i \<le> length (reduction_list s)
         \<and> reduction_list s' = take i (reduction_list s) @ m # drop i (reduction_list s)
         \<and> (\<forall>j<i. \<exists>t. get_two_theta (heap s (reduction_list s ! j)) = Inr t \<and> t < theta)
         \<and> (i < length (reduction_list s) \<longrightarrow>
              (\<exists>t. get_two_theta (heap s (reduction_list s ! i)) = Inr t \<and> theta \<le> t))))
   \<and> (ordered_by_theta (heap s0) (reduction_list s0) \<and> add_all s0 ms = Some s''
        \<longrightarrow> ordered_by_theta (heap s'') (reduction_list s''))"
proof (intro conjI impI)
  assume a: "add_active_to_reduction s = (Inr True, s')"
  from add_active_to_reduction_True [OF a] obtain m theta where
    m: "nexus_data s = Some m" "get_two_theta (heap s m) = Inr theta"
       "insert_by_theta (heap s) theta m (reduction_list s) = Inr (reduction_list s')"
    by auto
  from insert_by_theta_position [OF m(3)] m(1,2)
  show "\<exists>m theta i. nexus_data s = Some m \<and> get_two_theta (heap s m) = Inr theta
         \<and> i \<le> length (reduction_list s)
         \<and> reduction_list s' = take i (reduction_list s) @ m # drop i (reduction_list s)
         \<and> (\<forall>j<i. \<exists>t. get_two_theta (heap s (reduction_list s ! j)) = Inr t \<and> t < theta)
         \<and> (i < length (reduction_list s) \<longrightarrow>
              (\<exists>t. get_two_theta (heap s (reduction_list s ! i)) = Inr t \<and> theta \<le> t))"
    by blast
next
  assume "ordered_by_theta (heap s0) (reduction_list s0) \<and> add_all s0 ms = Some s''"
  then show "ordered_by_theta (heap s'') (reduction_list s'')"
    using add_all_keeps_order by blast
qed

theorem add_active_to_reduction_ordered_witness:
  "add_active_to_reduction
     (ex_scans\<lparr>nexus_data := Some 2, reduction_list := [1, 0],
               reduction_states := [''Off_Off'', ''On_On'']\<rparr>)
     = (Inr True,
        ex_scans\<lparr>nexus_data := Some 2, reduction_list := [1, 2, 0],
                  reduction_states := [''Off_Off'', ''On_On'']\<rparr>)
   \<and> ordered_by_theta (heap ex_scans) (reduction_list ex_scans)
   \<and> add_all ex_scans [0, 1, 2]
       = Some (ex_scans\<lparr>nexus_data := Some 2, reduction_list := [1, 2, 0],
                         reduction_states := [''Off_Off'', ''On_On'']\<rparr>)
   \<and> ordered_by_theta (heap ex_scans) [1, 2, 0]"
  using add_active_to_reduction_ordered
    [of "ex_scans\<lparr>nexus_data := Some 2, reduction_list := [1, 0],
                   reduction_states := [''Off_Off'', ''On_On'']\<rparr>"
        "ex_scans\<lparr>nexus_data := Some 2, reduction_list := [1, 2, 0],
                   reduction_states := [''Off_Off'', ''On_On'']\<rparr>"
        ex_scans
        "[0, 1, 2]"
        "ex_scans\<lparr>nexus_data := Some 2, reduction_list := [1, 2, 0],
                   reduction_states := [''Off_Off'', ''On_On'']\<rparr>"]
  by (simp add: add_active_to_reduction_def is_active_data_compatible_def data_sets_def
        get_two_theta_def ordered_by_theta_def keys_def ex_scan_defs)

section \<open>Trimming: results\<close>

lemma sorted_where_ge: "sorted (where_ge xs t)"
  by (simp add: where_ge_def sorted_wrt_filter)

lemma set_where_ge: "set (where_ge xs t) = {i. i < length xs \<and> xs ! i \<ge> t}"
  by (auto simp: where_ge_def)

lemma sorted_hd_least:
  assumes "sorted (xs :: nat list)" "x \<in> set xs"
  shows "hd xs \<le> x"
  using assms by (cases xs) auto

lemma sorted_last_greatest:
  assumes "sorted (xs :: nat list)" "x \<in> set xs"
  shows "x \<le> last xs"
proof -
  from assms(2) have "xs \<noteq> []" by auto
  then have "xs = butlast xs @ [last xs]" by simp
  then have "sorted (butlast xs @ [last xs])" using assms(1) by simp
  then have "\<forall>y\<in>set (butlast xs). y \<le> last xs" by (simp add: sorted_append)
  moreover from \<open>xs = butlast xs @ [last xs]\<close> assms(2)
  have "x \<in> set (butlast xs) \<or> x = last xs"
    by (metis Un_iff empty_iff empty_set insert_iff list.simps(15) set_append)
  ultimately show ?thesis by auto
qed

lemma where_ge_first:
  assumes "where_ge xs t \<noteq> []"
  shows "hd (where_ge xs t) < length xs" "xs ! hd (where_ge xs t) \<ge> t"
    "\<forall>j<hd (where_ge xs t). xs ! j < t"
proof -
  from assms have "hd (where_ge xs t) \<in> set (where_ge xs t)" by simp
  then show a: "hd (where_ge xs t) < length xs" and "xs ! hd (where_ge xs t) \<ge> t"
    by (simp_all add: set_where_ge)
  show "\<forall>j<hd (where_ge xs t). xs ! j < t"
  proof (intro allI impI, rule ccontr)
    fix j assume j: "j < hd (where_ge xs t)" and "\<not> xs ! j < t"
    with a have "j \<in> set (where_ge xs t)" by (simp add: set_where_ge)
    from sorted_hd_least [OF sorted_where_ge this] j show False by simp
  qed
qed

lemma where_ge_last:
  assumes "where_ge xs t \<noteq> []"
  shows "last (where_ge xs t) < length xs" "xs ! last (where_ge xs t) \<ge> t"
    "\<forall>j. last (where_ge xs t) < j \<and> j < length xs \<longrightarrow> xs ! j < t"
    "hd (where_ge xs t) \<le> last (where_ge xs t)"
proof -
  from assms have l: "last (where_ge xs t) \<in> set (where_ge xs t)" by simp
  then show "last (where_ge xs t) < length xs" and "xs ! last (where_ge xs t) \<ge> t"
    by (simp_all add: set_where_ge)
  show "\<forall>j. last (where_ge xs t) < j \<and> j < length xs \<longrightarrow> xs ! j < t"
  proof (intro allI impI, rule ccontr)
    fix j assume j: "last (where_ge xs t) < j \<and> j < length xs" and "\<not> xs ! j < t"
    then have "j \<in> set (where_ge xs t)" by (simp add: set_where_ge)
    from sorted_last_greatest [OF sorted_where_ge this] j show False by simp
  qed
  from sorted_hd_least [OF sorted_where_ge l]
  show "hd (where_ge xs t) \<le> last (where_ge xs t)" .
qed

lemma where_ge_max_nonempty:
  assumes "rs \<noteq> []" "t \<le> Max (set rs)"
  shows "where_ge rs t \<noteq> []"
proof -
  from assms(1) have "Max (set rs) \<in> set rs" by simp
  then obtain i where i: "i < length rs" "rs ! i = Max (set rs)"
    by (auto simp: in_set_conv_nth)
  with assms(2) have "i \<in> set (where_ge rs t)" by (simp add: set_where_ge)
  then show ?thesis by auto
qed

lemma find_direct_beam_channel_Some:
  assumes "find_direct_beam s (Inr active) = Some direct_beam"
  shows "\<exists>c n. configuration active = Some c \<and> normalization c = Some n"
  using assms by (auto simp: find_direct_beam_def split: option.splits)

lemma get_trim_values_resolved:
  assumes "the_active_channel s = Some active" "q active \<noteq> None"
    "find_direct_beam s (Inr active) = Some direct_beam" "r direct_beam = Some rs"
    "where_ge rs (f (Max (set rs))) \<noteq> []" "nexus_data s = Some m"
  shows "get_trim_values f s =
    (Inr (Some (int (hd (where_ge rs (f (Max (set rs))))),
                int (length rs) - int (last (where_ge rs (f (Max (set rs))))) - 1)),
     s\<lparr>heap := (heap s)
         (m := set_parameter
                 (set_parameter (heap s m)
                    (P_cut_first_n_points (int (hd (where_ge rs (f (Max (set rs))))))))
                 (P_cut_last_n_points
                    (int (length rs) - int (last (where_ge rs (f (Max (set rs))))) - 1)))\<rparr>)"
proof -
  from find_direct_beam_channel_Some [OF assms(3)] obtain c n where
    c: "configuration active = Some c" "normalization c = Some n" by blast
  from assms(5) have "rs \<noteq> []" by (auto simp: where_ge_def)
  with assms c show ?thesis by (simp add: get_trim_values_def Let_def)
qed

lemma set_parameter_cut_points:
  assumes "(k, xs) \<in> set (cross_sections
             (set_parameter (set_parameter nd (P_cut_first_n_points a)) (P_cut_last_n_points b)))"
    "configuration xs = Some c"
  shows "cut_first_n_points c = a \<and> cut_last_n_points c = b"
  using assms by (auto simp: set_parameter_def)

lemma get_trim_values_unresolved:
  assumes "the_active_channel s = None
     \<or> (\<exists>a. the_active_channel s = Some a
            \<and> (q a = None \<or> (configuration a \<noteq> None \<and> find_direct_beam s (Inr a) = None)))"
  shows "get_trim_values f s = (Inr None, s)"
  using assms by (auto simp: get_trim_values_def)

text \<open>The two intensity arrays of the spec, for a threshold between 0 and 1.\<close>

lemma get_trim_values_examples:
  assumes "0 < f 10" "f 10 \<le> 1"
  shows "fst (get_trim_values f (ex_trim [1, 5, 10, 9, 1])) = Inr (Some (0, 0))"
    and "fst (get_trim_values f (ex_trim [0, 0, 10, 0, 0])) = Inr (Some (2, 2))"
proof -
  have m1: "Max (set [1, 5, 10, 9, 1 :: real]) = 10" by simp
  have m2: "Max (set [0, 0, 10, 0, 0 :: real]) = 10" by simp
  from assms have w1: "where_ge [1, 5, 10, 9, 1] (f 10) = [0, 1, 2, 3, 4]"
    by (simp add: where_ge_def upt_rec)
  from assms have w2: "where_ge [0, 0, 10, 0, 0] (f 10) = [2]"
    by (simp add: where_ge_def upt_rec)
  have a: "the_active_channel (ex_trim rs) = Some ex_active_channel"
    "q ex_active_channel \<noteq> None"
    "find_direct_beam (ex_trim rs) (Inr ex_active_channel) = Some (ex_beam_channel rs)"
    "r (ex_beam_channel rs) = Some rs" "nexus_data (ex_trim rs) = Some 1" for rs
    by (simp_all add: the_active_channel_def find_direct_beam_def coerce_def py_int_defs
          ex_trim_defs)
  have ne1: "where_ge [1, 5, 10, 9, 1] (f (Max (set [1, 5, 10, 9, 1]))) \<noteq> []"
    by (simp add: w1)
  have ne2: "where_ge [0, 0, 10, 0, 0] (f (Max (set [0, 0, 10, 0, 0]))) \<noteq> []"
    by (simp add: w2)
  from get_trim_values_resolved
         [of "ex_trim [1, 5, 10, 9, 1]" ex_active_channel "ex_beam_channel [1, 5, 10, 9, 1]"
             "[1, 5, 10, 9, 1]" f 1, OF a(1-4) ne1 a(5)]
  show "fst (get_trim_values f (ex_trim [1, 5, 10, 9, 1])) = Inr (Some (0, 0))"
    by (simp add: w1)
  from get_trim_values_resolved
         [of "ex_trim [0, 0, 10, 0, 0]" ex_active_channel "ex_beam_channel [0, 0, 10, 0, 0]"
             "[0, 0, 10, 0, 0]" f 1, OF a(1-4) ne2 a(5)]
  show "fst (get_trim_values f (ex_trim [0, 0, 10, 0, 0])) = Inr (Some (2, 2))"
    by (simp add: w2)
qed

text \<open>
  C5, as stated: for an active channel with a resolved direct beam, \<open>get_trim_values\<close>
  computes the two cut values, writes them and returns them. The method first tests that
  the active channel has a q-array: for an active channel without one, whose direct beam
  of intensities \<open>[0,0,10,0,0]\<close> is resolved, it returns \<open>None\<close> and writes nothing.
\<close>

theorem get_trim_values_without_q_counterexample:
  "the_active_channel (ex_trim_unreduced [0, 0, 10, 0, 0]) = Some (ex_active_channel\<lparr>q := None\<rparr>)
   \<and> find_direct_beam (ex_trim_unreduced [0, 0, 10, 0, 0]) (Inr (ex_active_channel\<lparr>q := None\<rparr>))
       = Some (ex_beam_channel [0, 0, 10, 0, 0])
   \<and> r (ex_beam_channel [0, 0, 10, 0, 0]) = Some [0, 0, 10, 0, 0]
   \<and> get_trim_values ex_five_percent (ex_trim_unreduced [0, 0, 10, 0, 0])
       = (Inr None, ex_trim_unreduced [0, 0, 10, 0, 0])"
  by (simp add: get_trim_values_def the_active_channel_def find_direct_beam_def coerce_def
        py_int_defs ex_trim_unreduced_def ex_trim_defs)

text \<open>
  C5, amended: for an active channel that has a q-array and a resolved direct beam of
  intensities \<open>rs\<close> whose maximum reaches the threshold, 5% of the maximum as the float
  product gives it (a non-negative maximum does), \<open>get_trim_values\<close> returns \<open>cut_first\<close>,
  the index of the first point that is at least the threshold, and \<open>cut_last\<close>, the length
  minus the index of the last such point minus one, and writes both into the
  configuration of the active measurement. It returns \<open>None\<close> and writes nothing when there
  is no active channel, when the active channel has no q-array, or when no direct beam
  is resolvable for its configuration. With a threshold for the maximum 10 that lies
  above 0 and is at most 1 (the float product of 10 and 0.05 is 0.5), the intensities
  \<open>[1,5,10,9,1]\<close> give \<open>(0,0)\<close> and \<open>[0,0,10,0,0]\<close> give \<open>(2,2)\<close>.
\<close>

theorem get_trim_values_bounds:
  "(the_active_channel s = Some active \<and> q active \<noteq> None
      \<and> find_direct_beam s (Inr active) = Some direct_beam \<and> r direct_beam = Some rs
      \<and> rs \<noteq> [] \<and> f (Max (set rs)) \<le> Max (set rs) \<and> nexus_data s = Some m
    \<longrightarrow> (\<exists>first lst s'.
           get_trim_values f s = (Inr (Some (int first, int (length rs) - int lst - 1)), s')
         \<and> first \<le> lst \<and> lst < length rs
         \<and> rs ! first \<ge> f (Max (set rs)) \<and> (\<forall>j<first. rs ! j < f (Max (set rs)))
         \<and> rs ! lst \<ge> f (Max (set rs))
         \<and> (\<forall>j. lst < j \<and> j < length rs \<longrightarrow> rs ! j < f (Max (set rs)))
         \<and> s' = s\<lparr>heap := (heap s)
                   (m := set_parameter
                           (set_parameter (heap s m) (P_cut_first_n_points (int first)))
                           (P_cut_last_n_points (int (length rs) - int lst - 1)))\<rparr>
         \<and> (\<forall>k xs c. (k, xs) \<in> set (cross_sections (heap s' m)) \<and> configuration xs = Some c
              \<longrightarrow> cut_first_n_points c = int first
                \<and> cut_last_n_points c = int (length rs) - int lst - 1)))
   \<and> (the_active_channel s0 = None
        \<or> (\<exists>a. the_active_channel s0 = Some a
               \<and> (q a = None \<or> (configuration a \<noteq> None \<and> find_direct_beam s0 (Inr a) = None)))
      \<longrightarrow> get_trim_values f0 s0 = (Inr None, s0))
   \<and> (0 < f1 10 \<and> f1 10 \<le> 1
      \<longrightarrow> fst (get_trim_values f1 (ex_trim [1, 5, 10, 9, 1])) = Inr (Some (0, 0))
        \<and> fst (get_trim_values f1 (ex_trim [0, 0, 10, 0, 0])) = Inr (Some (2, 2)))"
proof (intro conjI impI)
  assume a: "the_active_channel s = Some active \<and> q active \<noteq> None
      \<and> find_direct_beam s (Inr active) = Some direct_beam \<and> r direct_beam = Some rs
      \<and> rs \<noteq> [] \<and> f (Max (set rs)) \<le> Max (set rs) \<and> nexus_data s = Some m"
  let ?t = "f (Max (set rs))"
  let ?first = "hd (where_ge rs ?t)" and ?lst = "last (where_ge rs ?t)"
  let ?nd = "set_parameter (set_parameter (heap s m) (P_cut_first_n_points (int ?first)))
               (P_cut_last_n_points (int (length rs) - int ?lst - 1))"
  from a have ne: "where_ge rs ?t \<noteq> []" using where_ge_max_nonempty by blast
  from a have g: "get_trim_values f s =
      (Inr (Some (int ?first, int (length rs) - int ?lst - 1)), s\<lparr>heap := (heap s)(m := ?nd)\<rparr>)"
    using get_trim_values_resolved [of s active direct_beam rs f m] ne by blast
  have w: "\<forall>k xs c. (k, xs) \<in> set (cross_sections (heap (s\<lparr>heap := (heap s)(m := ?nd)\<rparr>) m))
             \<and> configuration xs = Some c
              \<longrightarrow> cut_first_n_points c = int ?first
                \<and> cut_last_n_points c = int (length rs) - int ?lst - 1"
    using set_parameter_cut_points by auto
  from g w where_ge_first [OF ne] where_ge_last [OF ne]
  show "\<exists>first lst s'.
           get_trim_values f s = (Inr (Some (int first, int (length rs) - int lst - 1)), s')
         \<and> first \<le> lst \<and> lst < length rs
         \<and> rs ! first \<ge> f (Max (set rs)) \<and> (\<forall>j<first. rs ! j < f (Max (set rs)))
         \<and> rs ! lst \<ge> f (Max (set rs))
         \<and> (\<forall>j. lst < j \<and> j < length rs \<longrightarrow> rs ! j < f (Max (set rs)))
         \<and> s' = s\<lparr>heap := (heap s)
                   (m := set_parameter
                           (set_parameter (heap s m) (P_cut_first_n_points (int first)))
                           (P_cut_last_n_points (int (length rs) - int lst - 1)))\<rparr>
         \<and> (\<forall>k xs c. (k, xs) \<in> set (cross_sections (heap s' m)) \<and> configuration xs = Some c
              \<longrightarrow> cut_first_n_points c = int first
                \<and> cut_last_n_points c = int (length rs) - int lst - 1)"
    by (intro exI [of _ ?first] exI [of _ ?lst] exI [of _ "s\<lparr>heap := (heap s)(m := ?nd)\<rparr>"]) blast
next
  assume "the_active_channel s0 = None
        \<or> (\<exists>a. the_active_channel s0 = Some a
               \<and> (q a = None \<or> (configuration a \<noteq> None \<and> find_direct_beam s0 (Inr a) = None)))"
  then show "get_trim_values f0 s0 = (Inr None, s0)"
    by (rule get_trim_values_unresolved)
next
  assume "0 < f1 10 \<and> f1 10 \<le> 1"
  then show "fst (get_trim_values f1 (ex_trim [1, 5, 10, 9, 1])) = Inr (Some (0, 0))"
    using get_trim_values_examples(1) by blast
next
  assume "0 < f1 10 \<and> f1 10 \<le> 1"
  then show "fst (get_trim_values f1 (ex_trim [0, 0, 10, 0, 0])) = Inr (Some (2, 2))"
    using get_trim_values_examples(2) by blast
qed

theorem get_trim_values_bounds_witness:
  "the_active_channel (ex_trim [0, 3, 40, 2, 1]) = Some ex_active_channel
   \<and> q ex_active_channel \<noteq> None
   \<and> find_direct_beam (ex_trim [0, 3, 40, 2, 1]) (Inr ex_active_channel)
       = Some (ex_beam_channel [0, 3, 40, 2, 1])
   \<and> r (ex_beam_channel [0, 3, 40, 2, 1]) = Some [0, 3, 40, 2, 1]
   \<and> ex_five_percent (Max (set [0, 3, 40, 2, 1])) \<le> Max (set [0, 3, 40, 2, 1])
   \<and> nexus_data (ex_trim [0, 3, 40, 2, 1]) = Some 1
   \<and> fst (get_trim_values ex_five_percent (ex_trim [0, 3, 40, 2, 1])) = Inr (Some (1, 1))
   \<and> the_active_channel ((ex_trim [])\<lparr>direct_beam_list := []\<rparr>) = Some ex_active_channel
   \<and> configuration ex_active_channel \<noteq> None
   \<and> find_direct_beam ((ex_trim [])\<lparr>direct_beam_list := []\<rparr>) (Inr ex_active_channel) = None
   \<and> get_trim_values ex_five_percent ((ex_trim [])\<lparr>direct_beam_list := []\<rparr>)
       = (Inr None, (ex_trim [])\<lparr>direct_beam_list := []\<rparr>)
   \<and> 0 < ex_five_percent 10 \<and> ex_five_percent 10 \<le> 1
   \<and> fst (get_trim_values ex_five_percent (ex_trim [1, 5, 10, 9, 1])) = Inr (Some (0, 0))
   \<and> fst (get_trim_values ex_five_percent (ex_trim [0, 0, 10, 0, 0])) = Inr (Some (2, 2))"
  using get_trim_values_bounds
    [where s = "ex_trim [0, 3, 40, 2, 1]" and active = ex_active_channel
       and direct_beam = "ex_beam_channel [0, 3, 40, 2, 1]" and rs = "[0, 3, 40, 2, 1]"
       and m = 1 and ?s0.0 = "(ex_trim [])\<lparr>direct_beam_list := []\<rparr>"
       and f = ex_five_percent and ?f0.0 = ex_five_percent and ?f1.0 = ex_five_percent]
  by (simp add: get_trim_values_def the_active_channel_def find_direct_beam_def coerce_def
        py_int_defs where_ge_def ex_trim_defs set_parameter_def ex_five_percent_def)

section \<open>Overlap trimming: results\<close>

lemma overlap_points_result:
  assumes "overlap_points xs item next_item = Inr res"
  shows "\<exists>item_xs next_xs c item_q next_q t.
           map_of (cross_sections item) xs = Some item_xs \<and> q item_xs = Some item_q
         \<and> map_of (cross_sections next_item) xs = Some next_xs \<and> q next_xs = Some next_q
         \<and> configuration next_xs = Some c \<and> py_index next_q (cut_first_n_points c) = Inr t
         \<and> (case res of
               None \<Rightarrow> \<forall>j<length item_q. item_q ! j < t
             | Some n \<Rightarrow> \<exists>k<length item_q. n = int (length item_q) - int k
                            \<and> item_q ! k \<ge> t \<and> (\<forall>j<k. item_q ! j < t))"
proof -
  from assms obtain item_xs next_xs c item_q next_q t where
    l: "map_of (cross_sections item) xs = Some item_xs" "q item_xs = Some item_q"
       "map_of (cross_sections next_item) xs = Some next_xs" "q next_xs = Some next_q"
       "configuration next_xs = Some c" "py_index next_q (cut_first_n_points c) = Inr t"
    and res: "res = (if length (where_ge item_q t) > 0
                     then Some (int (length item_q) - int (hd (where_ge item_q t))) else None)"
    by (auto simp: overlap_points_def py_getitem_def Let_def split: option.splits sum.splits if_splits)
  have "case res of
               None \<Rightarrow> \<forall>j<length item_q. item_q ! j < t
             | Some n \<Rightarrow> \<exists>k<length item_q. n = int (length item_q) - int k
                            \<and> item_q ! k \<ge> t \<and> (\<forall>j<k. item_q ! j < t)"
  proof (cases "where_ge item_q t = []")
    case True
    then have "\<forall>j<length item_q. item_q ! j < t"
      using set_where_ge [of item_q t] by (auto simp: not_le [symmetric])
    with True res show ?thesis by simp
  next
    case False
    from where_ge_first [OF False] False res show ?thesis by auto
  qed
  with l show ?thesis by blast
qed

lemma strip_step_frame:
  assumes "strip_step xs a b h = Inr h'"
  shows "\<forall>m. m \<noteq> a \<longrightarrow> h' m = h m"
  using assms by (auto simp: strip_step_def split: sum.splits option.splits)

lemma strip_step_local:
  assumes "strip_step xs a b h1 = Inr h1'" "h1 a = h a" "h1 b = h b"
  shows "\<exists>h'. strip_step xs a b h = Inr h' \<and> h' a = h1' a"
  using assms by (auto simp: strip_step_def split: sum.splits option.splits)

lemma strip_pairs_result:
  "distinct rl \<Longrightarrow> strip_pairs xs rl h = (None, h') \<Longrightarrow>
     (\<forall>m. m \<notin> set (butlast rl) \<longrightarrow> h' m = h m)
     \<and> (\<forall>i. Suc i < length rl \<longrightarrow>
           (\<exists>hi. strip_step xs (rl ! i) (rl ! Suc i) h = Inr hi \<and> h' (rl ! i) = hi (rl ! i)))"
proof (induction xs rl h rule: strip_pairs.induct)
  case (1 xs a b rest h)
  from "1.prems"(2) obtain h1 where h1: "strip_step xs a b h = Inr h1"
    and rest: "strip_pairs xs (b # rest) h1 = (None, h')"
    by (auto split: sum.splits)
  from "1.prems"(1) have d: "distinct (b # rest)" and a: "a \<notin> set (b # rest)" by auto
  from "1.IH" [OF h1 d rest] have
    frame: "\<forall>m. m \<notin> set (butlast (b # rest)) \<longrightarrow> h' m = h1 m"
    and pairs: "\<forall>i. Suc i < length (b # rest) \<longrightarrow>
           (\<exists>hi. strip_step xs ((b # rest) ! i) ((b # rest) ! Suc i) h1 = Inr hi
                 \<and> h' ((b # rest) ! i) = hi ((b # rest) ! i))"
    by blast+
  have a': "a \<notin> set (butlast (b # rest))" using a by (meson in_set_butlastD)
  have "\<forall>m. m \<notin> set (butlast (a # b # rest)) \<longrightarrow> h' m = h m"
    using frame strip_step_frame [OF h1] by auto
  moreover have "\<exists>hi. strip_step xs ((a # b # rest) ! i) ((a # b # rest) ! Suc i) h = Inr hi
                 \<and> h' ((a # b # rest) ! i) = hi ((a # b # rest) ! i)"
    if i: "Suc i < length (a # b # rest)" for i
  proof (cases i)
    case 0
    with h1 frame a' show ?thesis by simp
  next
    case (Suc i')
    with i have i': "Suc i' < length (b # rest)" by simp
    with pairs obtain hi where hi:
      "strip_step xs ((b # rest) ! i') ((b # rest) ! Suc i') h1 = Inr hi"
      "h' ((b # rest) ! i') = hi ((b # rest) ! i')" by blast
    have "(b # rest) ! i' \<in> set (b # rest)" using i' by (intro nth_mem) simp
    moreover have "(b # rest) ! Suc i' \<in> set (b # rest)" using i' by (intro nth_mem) simp
    ultimately have "(b # rest) ! i' \<noteq> a" "(b # rest) ! Suc i' \<noteq> a" using a by auto
    with strip_step_frame [OF h1] have
      "h1 ((b # rest) ! i') = h ((b # rest) ! i')" "h1 ((b # rest) ! Suc i') = h ((b # rest) ! Suc i')"
      by auto
    from strip_step_local [OF hi(1) this] hi(2) Suc show ?thesis by auto
  qed
  ultimately show ?case by blast
qed auto

lemma strip_overlap_pairs:
  assumes "strip_overlap s = (None, s')" "the_active_channel s = Some active"
    "2 \<le> length (reduction_list s)"
  shows "strip_pairs (name active) (reduction_list s) (heap s) = (None, heap s')"
    "s' = s\<lparr>heap := heap s'\<rparr>"
  using assms by (auto simp: strip_overlap_def split: prod.splits)

text \<open>
  What \<open>strip_overlap\<close> does to the pair \<open>(i, i+1)\<close> of a reduction list without
  repetitions, for any q-array: the cut is the length minus the index \<open>k\<close> of the first
  point that is at least \<open>t\<close>, the q-value of measurement \<open>i+1\<close> at its cut-first index.
\<close>

lemma strip_overlap_pair:
  "(length (reduction_list s) < 2 \<longrightarrow> strip_overlap s = (None, s))
   \<and> (distinct (reduction_list s0) \<and> the_active_channel s0 = Some active
        \<and> strip_overlap s0 = (None, s') \<and> Suc i < length (reduction_list s0)
      \<longrightarrow> s' = s0\<lparr>heap := heap s'\<rparr>
        \<and> (\<exists>item_xs next_xs c item_q next_q t.
             map_of (cross_sections (heap s0 (reduction_list s0 ! i))) (name active) = Some item_xs
           \<and> q item_xs = Some item_q
           \<and> map_of (cross_sections (heap s0 (reduction_list s0 ! Suc i))) (name active)
               = Some next_xs
           \<and> q next_xs = Some next_q
           \<and> configuration next_xs = Some c \<and> py_index next_q (cut_first_n_points c) = Inr t
           \<and> (if \<exists>j<length item_q. item_q ! j \<ge> t
               then \<exists>k<length item_q. item_q ! k \<ge> t \<and> (\<forall>j<k. item_q ! j < t)
                      \<and> heap s' (reduction_list s0 ! i)
                          = set_parameter (heap s0 (reduction_list s0 ! i))
                              (P_cut_last_n_points (int (length item_q) - int k))
                      \<and> (sorted item_q \<longrightarrow> (\<forall>j<length item_q. (k \<le> j) = (item_q ! j \<ge> t)))
               else heap s' (reduction_list s0 ! i) = heap s0 (reduction_list s0 ! i))))"
proof (intro conjI impI)
  assume "length (reduction_list s) < 2"
  then show "strip_overlap s = (None, s)" by (simp add: strip_overlap_def)
next
  assume a: "distinct (reduction_list s0) \<and> the_active_channel s0 = Some active
        \<and> strip_overlap s0 = (None, s') \<and> Suc i < length (reduction_list s0)"
  then have len: "2 \<le> length (reduction_list s0)" by simp
  from a strip_overlap_pairs [OF _ _ len] show "s' = s0\<lparr>heap := heap s'\<rparr>" by blast
next
  assume a: "distinct (reduction_list s0) \<and> the_active_channel s0 = Some active
        \<and> strip_overlap s0 = (None, s') \<and> Suc i < length (reduction_list s0)"
  let ?item = "reduction_list s0 ! i" and ?next = "reduction_list s0 ! Suc i"
  let ?xs = "name active"
  from a have len: "2 \<le> length (reduction_list s0)" by simp
  from a strip_overlap_pairs [OF _ _ len]
  have "strip_pairs ?xs (reduction_list s0) (heap s0) = (None, heap s')" by blast
  with strip_pairs_result a obtain hi where
    hi: "strip_step ?xs ?item ?next (heap s0) = Inr hi" "heap s' ?item = hi ?item" by blast
  from hi(1) obtain res where res: "overlap_points ?xs (heap s0 ?item) (heap s0 ?next) = Inr res"
    and hi_eq: "hi ?item = (case res of None \<Rightarrow> heap s0 ?item
                 | Some n \<Rightarrow> set_parameter (heap s0 ?item) (P_cut_last_n_points n))"
    by (auto simp: strip_step_def split: sum.splits option.splits)
  from overlap_points_result [OF res] obtain item_xs next_xs c item_q next_q t where
    l: "map_of (cross_sections (heap s0 ?item)) ?xs = Some item_xs" "q item_xs = Some item_q"
       "map_of (cross_sections (heap s0 ?next)) ?xs = Some next_xs" "q next_xs = Some next_q"
       "configuration next_xs = Some c" "py_index next_q (cut_first_n_points c) = Inr t"
    and r: "case res of
               None \<Rightarrow> \<forall>j<length item_q. item_q ! j < t
             | Some n \<Rightarrow> \<exists>k<length item_q. n = int (length item_q) - int k
                            \<and> item_q ! k \<ge> t \<and> (\<forall>j<k. item_q ! j < t)"
    by blast
  have "if \<exists>j<length item_q. item_q ! j \<ge> t
        then \<exists>k<length item_q. item_q ! k \<ge> t \<and> (\<forall>j<k. item_q ! j < t)
               \<and> heap s' ?item
                   = set_parameter (heap s0 ?item) (P_cut_last_n_points (int (length item_q) - int k))
               \<and> (sorted item_q \<longrightarrow> (\<forall>j<length item_q. (k \<le> j) = (item_q ! j \<ge> t)))
        else heap s' ?item = heap s0 ?item"
  proof (cases res)
    case None
    with r have "\<forall>j<length item_q. item_q ! j < t" by simp
    then have ne: "\<not> (\<exists>j<length item_q. item_q ! j \<ge> t)" by (auto simp: not_le)
    from None hi(2) hi_eq have "heap s' ?item = heap s0 ?item" by simp
    then show ?thesis by (subst if_not_P [OF ne])
  next
    case (Some n)
    with r obtain k where k: "k < length item_q" "n = int (length item_q) - int k"
      "item_q ! k \<ge> t" "\<forall>j<k. item_q ! j < t" by auto
    have "\<forall>j<length item_q. (k \<le> j) = (item_q ! j \<ge> t)" if "sorted item_q"
    proof (intro allI impI)
      fix j assume j: "j < length item_q"
      show "(k \<le> j) = (item_q ! j \<ge> t)"
      proof
        assume "k \<le> j"
        with that j have "item_q ! k \<le> item_q ! j" by (simp add: sorted_nth_mono)
        with k(3) show "item_q ! j \<ge> t" by simp
      next
        assume "item_q ! j \<ge> t"
        with k(4) show "k \<le> j" by (auto simp: not_le [symmetric])
      qed
    qed
    then have srt: "sorted item_q \<longrightarrow> (\<forall>j<length item_q. (k \<le> j) = (item_q ! j \<ge> t))"
      by blast
    from k(1,3) have ex: "\<exists>j<length item_q. item_q ! j \<ge> t" by blast
    from Some hi(2) hi_eq k(2) have
      "heap s' ?item
         = set_parameter (heap s0 ?item) (P_cut_last_n_points (int (length item_q) - int k))"
      by simp
    with k(1,3,4) srt show ?thesis by (subst if_P [OF ex]) blast
  qed
  with l show "\<exists>item_xs next_xs c item_q next_q t.
             map_of (cross_sections (heap s0 (reduction_list s0 ! i))) (name active) = Some item_xs
           \<and> q item_xs = Some item_q
           \<and> map_of (cross_sections (heap s0 (reduction_list s0 ! Suc i))) (name active)
               = Some next_xs
           \<and> q next_xs = Some next_q
           \<and> configuration next_xs = Some c \<and> py_index next_q (cut_first_n_points c) = Inr t
           \<and> (if \<exists>j<length item_q. item_q ! j \<ge> t
               then \<exists>k<length item_q. item_q ! k \<ge> t \<and> (\<forall>j<k. item_q ! j < t)
                      \<and> heap s' (reduction_list s0 ! i)
                          = set_parameter (heap s0 (reduction_list s0 ! i))
                              (P_cut_last_n_points (int (length item_q) - int k))
                      \<and> (sorted item_q \<longrightarrow> (\<forall>j<length item_q. (k \<le> j) = (item_q ! j \<ge> t)))
               else heap s' (reduction_list s0 ! i) = heap s0 (reduction_list s0 ! i))"
    by blast
qed

text \<open>
  C6: with fewer than two measurements nothing changes. Otherwise, for every adjacent
  pair \<open>(i, i+1)\<close> of the reduction list, with \<open>t\<close> the q-value of measurement \<open>i+1\<close> at
  its cut-first index in the active channel: when the q-array of measurement \<open>i\<close> has a
  point that is at least \<open>t\<close>, its \<open>cut_last_n_points\<close> is set to a number \<open>n\<close> such that the
  last \<open>n\<close> points, which are the ones it excludes, are exactly the points that are at
  least \<open>t\<close>; measurement \<open>i\<close> is unchanged when it has no such point. The q-arrays are in
  ascending order, as the momentum transfer of a reflectivity curve is, the reduction
  list holds no measurement twice, and the call raises no exception.
\<close>

theorem strip_overlap_cuts:
  "(length (reduction_list s) < 2 \<longrightarrow> strip_overlap s = (None, s))
   \<and> (distinct (reduction_list s0) \<and> the_active_channel s0 = Some active
        \<and> strip_overlap s0 = (None, s') \<and> Suc i < length (reduction_list s0)
        \<and> map_of (cross_sections (heap s0 (reduction_list s0 ! i))) (name active) = Some item_xs
        \<and> q item_xs = Some item_q \<and> sorted item_q
      \<longrightarrow> s' = s0\<lparr>heap := heap s'\<rparr>
        \<and> (\<exists>next_xs c next_q t.
             map_of (cross_sections (heap s0 (reduction_list s0 ! Suc i))) (name active)
               = Some next_xs
           \<and> q next_xs = Some next_q
           \<and> configuration next_xs = Some c \<and> py_index next_q (cut_first_n_points c) = Inr t
           \<and> (if \<exists>j<length item_q. item_q ! j \<ge> t
               then \<exists>n. 0 < n \<and> n \<le> int (length item_q)
                      \<and> heap s' (reduction_list s0 ! i)
                          = set_parameter (heap s0 (reduction_list s0 ! i)) (P_cut_last_n_points n)
                      \<and> (\<forall>k xs c'. (k, xs) \<in> set (cross_sections (heap s' (reduction_list s0 ! i)))
                             \<and> configuration xs = Some c' \<longrightarrow> cut_last_n_points c' = n)
                      \<and> (\<forall>j<length item_q. (int (length item_q) - n \<le> int j) = (item_q ! j \<ge> t))
               else heap s' (reduction_list s0 ! i) = heap s0 (reduction_list s0 ! i))))"
proof (intro conjI impI)
  assume "length (reduction_list s) < 2"
  then show "strip_overlap s = (None, s)" by (simp add: strip_overlap_def)
next
  assume a: "distinct (reduction_list s0) \<and> the_active_channel s0 = Some active
        \<and> strip_overlap s0 = (None, s') \<and> Suc i < length (reduction_list s0)
        \<and> map_of (cross_sections (heap s0 (reduction_list s0 ! i))) (name active) = Some item_xs
        \<and> q item_xs = Some item_q \<and> sorted item_q"
  with strip_overlap_pair [of s s0 active s' i] show "s' = s0\<lparr>heap := heap s'\<rparr>" by blast
next
  assume a: "distinct (reduction_list s0) \<and> the_active_channel s0 = Some active
        \<and> strip_overlap s0 = (None, s') \<and> Suc i < length (reduction_list s0)
        \<and> map_of (cross_sections (heap s0 (reduction_list s0 ! i))) (name active) = Some item_xs
        \<and> q item_xs = Some item_q \<and> sorted item_q"
  let ?item = "reduction_list s0 ! i"
  let ?len = "length item_q"
  from a strip_overlap_pair [of s s0 active s' i] obtain item_xs' next_xs c item_q' next_q t where
    p: "map_of (cross_sections (heap s0 ?item)) (name active) = Some item_xs'"
       "q item_xs' = Some item_q'"
       "map_of (cross_sections (heap s0 (reduction_list s0 ! Suc i))) (name active) = Some next_xs"
       "q next_xs = Some next_q" "configuration next_xs = Some c"
       "py_index next_q (cut_first_n_points c) = Inr t"
       "if \<exists>j<length item_q'. item_q' ! j \<ge> t
        then \<exists>k<length item_q'. item_q' ! k \<ge> t \<and> (\<forall>j<k. item_q' ! j < t)
               \<and> heap s' ?item
                   = set_parameter (heap s0 ?item) (P_cut_last_n_points (int (length item_q') - int k))
               \<and> (sorted item_q' \<longrightarrow> (\<forall>j<length item_q'. (k \<le> j) = (item_q' ! j \<ge> t)))
        else heap s' ?item = heap s0 ?item"
    by blast
  from a p(1,2) have same: "item_q' = item_q" by simp
  have "if \<exists>j<?len. item_q ! j \<ge> t
        then \<exists>n. 0 < n \<and> n \<le> int ?len
               \<and> heap s' ?item = set_parameter (heap s0 ?item) (P_cut_last_n_points n)
               \<and> (\<forall>k xs c'. (k, xs) \<in> set (cross_sections (heap s' ?item))
                      \<and> configuration xs = Some c' \<longrightarrow> cut_last_n_points c' = n)
               \<and> (\<forall>j<?len. (int ?len - n \<le> int j) = (item_q ! j \<ge> t))
        else heap s' ?item = heap s0 ?item"
  proof (cases "\<exists>j<?len. item_q ! j \<ge> t")
    case True
    with p(7) same a obtain k where k: "k < ?len"
      "heap s' ?item = set_parameter (heap s0 ?item) (P_cut_last_n_points (int ?len - int k))"
      "\<forall>j<?len. (k \<le> j) = (item_q ! j \<ge> t)"
      by auto
    let ?n = "int ?len - int k"
    have "0 < ?n" "?n \<le> int ?len" using k(1) by simp_all
    moreover have "\<forall>k xs c'. (k, xs) \<in> set (cross_sections (heap s' ?item))
                      \<and> configuration xs = Some c' \<longrightarrow> cut_last_n_points c' = ?n"
      unfolding k(2) by (auto simp: set_parameter_def)
    moreover have "\<forall>j<?len. (int ?len - ?n \<le> int j) = (item_q ! j \<ge> t)"
      using k(3) by simp
    ultimately have "\<exists>n. 0 < n \<and> n \<le> int ?len
               \<and> heap s' ?item = set_parameter (heap s0 ?item) (P_cut_last_n_points n)
               \<and> (\<forall>k xs c'. (k, xs) \<in> set (cross_sections (heap s' ?item))
                      \<and> configuration xs = Some c' \<longrightarrow> cut_last_n_points c' = n)
               \<and> (\<forall>j<?len. (int ?len - n \<le> int j) = (item_q ! j \<ge> t))"
      using k(2) by (intro exI [of _ ?n]) blast
    then show ?thesis by (subst if_P [OF True])
  next
    case False
    with p(7) same have "heap s' ?item = heap s0 ?item" by simp
    then show ?thesis by (subst if_not_P [OF False])
  qed
  with p(3-6) show "\<exists>next_xs c next_q t.
             map_of (cross_sections (heap s0 (reduction_list s0 ! Suc i))) (name active)
               = Some next_xs
           \<and> q next_xs = Some next_q
           \<and> configuration next_xs = Some c \<and> py_index next_q (cut_first_n_points c) = Inr t
           \<and> (if \<exists>j<length item_q. item_q ! j \<ge> t
               then \<exists>n. 0 < n \<and> n \<le> int (length item_q)
                      \<and> heap s' (reduction_list s0 ! i)
                          = set_parameter (heap s0 (reduction_list s0 ! i)) (P_cut_last_n_points n)
                      \<and> (\<forall>k xs c'. (k, xs) \<in> set (cross_sections (heap s' (reduction_list s0 ! i)))
                             \<and> configuration xs = Some c' \<longrightarrow> cut_last_n_points c' = n)
                      \<and> (\<forall>j<length item_q. (int (length item_q) - n \<le> int j) = (item_q ! j \<ge> t))
               else heap s' (reduction_list s0 ! i) = heap s0 (reduction_list s0 ! i))"
    by blast
qed

theorem strip_overlap_cuts_witness:
  "length (reduction_list (init [])) < 2
   \<and> strip_overlap (init []) = (None, init [])
   \<and> distinct (reduction_list (ex_overlap [0.01, 0.02, 0.03, 0.04, 0.05]
                                  [0.03, 0.04, 0.05, 0.06, 0.07, 0.08]))
   \<and> the_active_channel (ex_overlap [0.01, 0.02, 0.03, 0.04, 0.05]
                           [0.03, 0.04, 0.05, 0.06, 0.07, 0.08])
       = Some ((ex_channel ''Off_Off'' [])\<lparr>q := Some [0.01, 0.02, 0.03, 0.04, 0.05]\<rparr>)
   \<and> Suc 0 < length (reduction_list (ex_overlap [0.01, 0.02, 0.03, 0.04, 0.05]
                                       [0.03, 0.04, 0.05, 0.06, 0.07, 0.08]))
   \<and> sorted [0.01, 0.02, 0.03, 0.04, 0.05 :: real]
   \<and> strip_overlap (ex_overlap [0.01, 0.02, 0.03, 0.04, 0.05]
                      [0.03, 0.04, 0.05, 0.06, 0.07, 0.08])
       = (None, (ex_overlap [0.01, 0.02, 0.03, 0.04, 0.05] [0.03, 0.04, 0.05, 0.06, 0.07, 0.08])
            \<lparr>heap := (heap (ex_overlap [0.01, 0.02, 0.03, 0.04, 0.05]
                               [0.03, 0.04, 0.05, 0.06, 0.07, 0.08]))
               (0 := set_parameter (ex_q_scan [0.01, 0.02, 0.03, 0.04, 0.05])
                       (P_cut_last_n_points 3))\<rparr>)"
  using strip_overlap_cuts
    [where s = "init []"
       and ?s0.0 = "ex_overlap [0.01, 0.02, 0.03, 0.04, 0.05] [0.03, 0.04, 0.05, 0.06, 0.07, 0.08]"
       and active = "(ex_channel ''Off_Off'' [])\<lparr>q := Some [0.01, 0.02, 0.03, 0.04, 0.05]\<rparr>"
       and i = 0
       and item_xs = "(ex_channel ''Off_Off'' [])\<lparr>q := Some [0.01, 0.02, 0.03, 0.04, 0.05]\<rparr>"
       and item_q = "[0.01, 0.02, 0.03, 0.04, 0.05]"
       and s' = "(ex_overlap [0.01, 0.02, 0.03, 0.04, 0.05] [0.03, 0.04, 0.05, 0.06, 0.07, 0.08])
            \<lparr>heap := (heap (ex_overlap [0.01, 0.02, 0.03, 0.04, 0.05]
                               [0.03, 0.04, 0.05, 0.06, 0.07, 0.08]))
               (0 := set_parameter (ex_q_scan [0.01, 0.02, 0.03, 0.04, 0.05])
                       (P_cut_last_n_points 3))\<rparr>"]
  by (simp add: strip_overlap_def the_active_channel_def strip_step_def overlap_points_def
       py_getitem_def py_index_def where_ge_def ex_overlap_defs)

section \<open>Loading: results\<close>

lemma index_where_None: "index_where P xs = None \<longleftrightarrow> (\<forall>x\<in>set xs. \<not> P x)"
  by (induction xs) auto

lemma index_where_Some:
  "index_where P xs = Some i \<Longrightarrow> i < length xs \<and> P (xs ! i) \<and> (\<forall>j<i. \<not> P (xs ! j))"
proof (induction xs arbitrary: i)
  case Nil
  then show ?case by simp
next
  case (Cons x xs)
  show ?case
  proof (cases "P x")
    case True
    with Cons.prems show ?thesis by simp
  next
    case False
    with Cons.prems obtain i' where i': "index_where P xs = Some i'" "i = Suc i'" by auto
    from Cons.IH [OF i'(1)] False i'(2) show ?thesis by (auto simp: less_Suc_eq_0_disj)
  qed
qed

lemma evict_short: "length c < MAX_CACHE \<Longrightarrow> evict c = c"
  by (subst evict.simps) simp

lemma set_channel_frame:
  "snd (set_channel s i) = s\<lparr>active_channel := active_channel (snd (set_channel s i))\<rparr>"
  by (simp add: set_channel_def Let_def split: option.splits)

lemma activate_frame:
  "heap (activate ext s path m) = heap s" "cache (activate ext s path m) = cache s"
  "next_ref (activate ext s path m) = next_ref s" "nexus_data (activate ext s path m) = Some m"
  unfolding activate_def by (subst set_channel_frame, simp)+

lemma file_path_set_parameter [simp]: "file_path (set_parameter nd p) = file_path nd"
  by (simp add: set_parameter_def)

lemma find_best_direct_beam_frame:
  assumes "find_best_direct_beam ext s = (res, s')"
  shows "s' = s\<lparr>heap := heap s'\<rparr>"
    and "\<forall>m. nexus_data s \<noteq> Some m \<longrightarrow> heap s' m = heap s m"
    and "\<forall>m. file_path (heap s' m) = file_path (heap s m)"
  using assms
  by (auto simp: find_best_direct_beam_def split: sum.splits option.splits)

lemma calculate_reflectivity_frame:
  "snd (calculate_reflectivity ext s) = s\<lparr>heap := heap (snd (calculate_reflectivity ext s))\<rparr>"
  "nexus_data s \<noteq> Some m \<Longrightarrow> heap (snd (calculate_reflectivity ext s)) m = heap s m"
  "file_path (heap (snd (calculate_reflectivity ext s)) m) = file_path (heap s m)"
  by (auto simp: calculate_reflectivity_def split: option.splits prod.splits)

lemma add_to_cache_frame:
  "cache (add_to_cache ext s m rid did) = evict (cache s) @ [m]"
  "next_ref (add_to_cache ext s m rid did) = next_ref s"
  "nexus_data (add_to_cache ext s m rid did) = nexus_data s"
  "nexus_data s \<noteq> Some m' \<Longrightarrow> heap (add_to_cache ext s m rid did) m' = heap s m'"
  "file_path (heap (add_to_cache ext s m rid did) m') = file_path (heap s m')"
proof -
  let ?s1 = "s\<lparr>reduction_list := (case rid of None \<Rightarrow> reduction_list s
                                  | Some i \<Rightarrow> (reduction_list s)[i := m]),
               direct_beam_list := (case did of None \<Rightarrow> direct_beam_list s
                                    | Some i \<Rightarrow> (direct_beam_list s)[i := m])\<rparr>"
  let ?s2 = "snd (calculate_reflectivity ext ?s1)"
  have eq: "add_to_cache ext s m rid did = ?s2\<lparr>cache := evict (cache ?s2) @ [m]\<rparr>"
    by (simp add: add_to_cache_def Let_def)
  have s2: "?s2 = ?s1\<lparr>heap := heap ?s2\<rparr>" by (rule calculate_reflectivity_frame(1))
  have c: "cache ?s2 = cache s" "next_ref ?s2 = next_ref s" "nexus_data ?s2 = nexus_data s"
    by (subst s2, simp)+
  show "cache (add_to_cache ext s m rid did) = evict (cache s) @ [m]"
    "next_ref (add_to_cache ext s m rid did) = next_ref s"
    "nexus_data (add_to_cache ext s m rid did) = nexus_data s"
    by (simp_all add: eq c)
  show "heap (add_to_cache ext s m rid did) m' = heap s m'" if "nexus_data s \<noteq> Some m'"
    using that calculate_reflectivity_frame(2) [of ?s1 m' ext] by (simp add: eq)
  show "file_path (heap (add_to_cache ext s m rid did) m') = file_path (heap s m')"
    using calculate_reflectivity_frame(3) [of ext ?s1 m'] by (simp add: eq)
qed

lemma load_new_configuration:
  "snd (snd (load_new ext s path conf u rid did))
     = snd (load_file ext path (conf\<lparr>normalization := None\<rparr>) u)"
  by (simp add: load_new_def Let_def split: prod.splits sum.splits)

lemma load_new_returns:
  assumes "load_new ext s path conf u rid did = (Inr b, s', conf')"
  shows "b = False" "nexus_data s' = Some (next_ref s)" "next_ref s' = Suc (next_ref s)"
    "cache s' = evict (cache s) @ [next_ref s]"
    "file_path (heap s' (next_ref s)) = path"
    "\<forall>m. m \<noteq> next_ref s \<longrightarrow> heap s' m = heap s m"
proof -
  let ?m = "next_ref s"
  from assms obtain num channels where
    lf: "load_file ext path (conf\<lparr>normalization := None\<rparr>) u = (Inr (num, channels), conf')"
    by (auto simp: load_new_def Let_def split: prod.splits sum.splits)
  define s1 where "s1 = s\<lparr>heap := (heap s)
                        (?m := \<lparr>file_path = path, number = num, cross_sections = channels\<rparr>),
                     next_ref := Suc ?m\<rparr>"
  define s2 where "s2 = activate ext s1 path ?m"
  define fb where "fb = (if normalization conf' = None \<and> match_direct_beam conf'
                 then find_best_direct_beam ext s2 else (Inr False, s2))"
  obtain r3 s3 where fb3: "fb = (r3, s3)" by (cases fb)
  have ln: "load_new ext s path conf u rid did =
     (case r3 of Inl e \<Rightarrow> (Inl e, s3, conf')
      | Inr _ \<Rightarrow> (Inr False, add_to_cache ext s3 ?m rid did, conf'))"
    using lf fb3 [unfolded fb_def s2_def s1_def]
    by (simp add: load_new_def Let_def split: sum.splits)
  with assms have res: "b = False" "s' = add_to_cache ext s3 ?m rid did"
    by (auto split: sum.splits)
  have a2: "heap s2 = heap s1" "cache s2 = cache s1" "next_ref s2 = next_ref s1"
    "nexus_data s2 = Some ?m"
    by (simp_all add: s2_def activate_frame)
  have s3: "s3 = s2\<lparr>heap := heap s3\<rparr>" "\<forall>m. m \<noteq> ?m \<longrightarrow> heap s3 m = heap s2 m"
    "\<forall>m. file_path (heap s3 m) = file_path (heap s2 m)"
  proof -
    have "s3 = s2\<lparr>heap := heap s3\<rparr> \<and> (\<forall>m. nexus_data s2 \<noteq> Some m \<longrightarrow> heap s3 m = heap s2 m)
      \<and> (\<forall>m. file_path (heap s3 m) = file_path (heap s2 m))"
    proof (cases "normalization conf' = None \<and> match_direct_beam conf'")
      case True
      with fb3 have "find_best_direct_beam ext s2 = (r3, s3)" by (simp add: fb_def)
      from find_best_direct_beam_frame [OF this] show ?thesis by blast
    next
      case False
      with fb3 show ?thesis by (simp add: fb_def)
    qed
    with a2(4) show "s3 = s2\<lparr>heap := heap s3\<rparr>" "\<forall>m. m \<noteq> ?m \<longrightarrow> heap s3 m = heap s2 m"
      "\<forall>m. file_path (heap s3 m) = file_path (heap s2 m)" by auto
  qed
  have c3: "cache s3 = cache s" "nexus_data s3 = Some ?m" "next_ref s3 = Suc ?m"
    by (subst s3(1), simp add: a2 s1_def)+
  from res show "b = False" by simp
  from res c3 show "nexus_data s' = Some ?m" "next_ref s' = Suc ?m"
    "cache s' = evict (cache s) @ [?m]" by (simp_all add: add_to_cache_frame)
  from res s3(3) a2(1) show "file_path (heap s' ?m) = path"
    by (simp add: add_to_cache_frame s1_def)
  from res s3(2) a2(1) c3(2) show "\<forall>m. m \<noteq> ?m \<longrightarrow> heap s' m = heap s m"
    by (simp add: add_to_cache_frame s1_def)
qed

lemma evict_subset: "set (evict c) \<subseteq> set c"
proof (induction c rule: evict.induct)
  case (1 c)
  show ?case
  proof (cases "length c \<ge> MAX_CACHE")
    case True
    then have ne: "c \<noteq> []" by (auto simp: MAX_CACHE_def)
    from True have "evict c = evict (tl c)" by (subst evict.simps) simp
    with "1.IH" [OF True] have "set (evict c) \<subseteq> set (tl c)" by simp
    also have "\<dots> \<subseteq> set c" using ne by (auto dest: list.set_sel(2))
    finally show ?thesis .
  next
    case False
    then show ?thesis by (subst evict.simps) simp
  qed
qed

lemma load_miss:
  assumes "\<forall>m\<in>set (cache s). file_path (heap s m) \<noteq> normalize_path ext p"
  shows "load ext s p conf force u = load_new ext s (normalize_path ext p) conf u None None"
proof -
  from assms have "index_where (\<lambda>m. file_path (heap s m) = normalize_path ext p) (cache s) = None"
    by (simp add: index_where_None)
  then show ?thesis by (simp add: load_def Let_def)
qed

lemma load_hit:
  assumes "m \<in> set (cache s)" "file_path (heap s m) = normalize_path ext p"
  shows "\<exists>m'\<in>set (cache s). file_path (heap s m') = normalize_path ext p
           \<and> load ext s p conf False u = load_cached ext s (normalize_path ext p) conf m'"
proof -
  let ?P = "\<lambda>m. file_path (heap s m) = normalize_path ext p"
  from assms have "index_where ?P (cache s) \<noteq> None" by (auto simp: index_where_None)
  then obtain i where i: "index_where ?P (cache s) = Some i" by auto
  from index_where_Some [OF i] have "cache s ! i \<in> set (cache s)" "?P (cache s ! i)" by auto
  moreover from i have "load ext s p conf False u
      = load_cached ext s (normalize_path ext p) conf (cache s ! i)"
    by (simp add: load_def Let_def)
  ultimately show ?thesis by blast
qed

lemma load_not_from_cache:
  assumes "(\<forall>m\<in>set (cache s). file_path (heap s m) \<noteq> normalize_path ext p) \<or> force"
  shows "\<exists>s0 rid did. load ext s p conf force u
           = load_new ext s0 (normalize_path ext p) conf u rid did"
proof (cases "index_where (\<lambda>m. file_path (heap s m) = normalize_path ext p) (cache s)")
  case None
  then show ?thesis by (auto simp: load_def Let_def)
next
  case (Some i)
  with assms have force by (auto simp: index_where_None [symmetric])
  with Some show ?thesis by (auto simp: load_def Let_def)
qed

lemma load_new_not_True: "fst (load_new ext s path conf u rid did) \<noteq> Inr True"
  by (simp add: load_new_def Let_def split: prod.splits sum.splits)

lemma load_new_reset:
  "load_new ext s path (conf\<lparr>normalization := None\<rparr>) u rid did
     = load_new ext s path conf u rid did"
  by (simp add: load_new_def)

text \<open>
  C10: when \<open>load\<close> does not serve the measurement from the cache (the path is not in the
  cache, or \<open>force\<close> is on), the loader receives the caller's configuration with its
  normalization set to \<open>None\<close>: the configuration the call leaves is the one the loader
  leaves from that, and the call does not depend on the normalization the caller had
  set. On a cache hit with \<open>force\<close> off the configuration is unchanged.
\<close>

theorem load_resets_normalization:
  "((\<forall>m\<in>set (cache s). file_path (heap s m) \<noteq> normalize_path ext p) \<or> force
      \<longrightarrow> snd (snd (load ext s p conf force u))
            = snd (load_file ext (normalize_path ext p) (conf\<lparr>normalization := None\<rparr>) u)
        \<and> load ext s p conf force u = load ext s p (conf\<lparr>normalization := None\<rparr>) force u
        \<and> fst (load ext s p conf force u) \<noteq> Inr True)
   \<and> ((\<exists>m\<in>set (cache s0). file_path (heap s0 m) = normalize_path ext0 p0)
      \<longrightarrow> fst (load ext0 s0 p0 conf0 False u0) = Inr True
        \<and> snd (snd (load ext0 s0 p0 conf0 False u0)) = conf0)"
proof (intro conjI impI)
  assume a: "(\<forall>m\<in>set (cache s). file_path (heap s m) \<noteq> normalize_path ext p) \<or> force"
  from load_not_from_cache [OF a] obtain s1 rid did where
    l: "load ext s p conf force u = load_new ext s1 (normalize_path ext p) conf u rid did"
    by blast
  then show "snd (snd (load ext s p conf force u))
            = snd (load_file ext (normalize_path ext p) (conf\<lparr>normalization := None\<rparr>) u)"
    by (simp add: load_new_configuration)
  from l show "fst (load ext s p conf force u) \<noteq> Inr True" by (simp add: load_new_not_True)
  show "load ext s p conf force u = load ext s p (conf\<lparr>normalization := None\<rparr>) force u"
  proof (cases "index_where (\<lambda>m. file_path (heap s m) = normalize_path ext p) (cache s)")
    case None
    then show ?thesis by (simp add: load_def Let_def load_new_reset)
  next
    case (Some i)
    with a have force by (auto simp: index_where_None [symmetric])
    with Some show ?thesis by (simp add: load_def Let_def load_new_reset)
  qed
next
  assume "\<exists>m\<in>set (cache s0). file_path (heap s0 m) = normalize_path ext0 p0"
  then obtain m where "m \<in> set (cache s0)" "file_path (heap s0 m) = normalize_path ext0 p0"
    by blast
  from load_hit [OF this, of conf0 u0]
  show "fst (load ext0 s0 p0 conf0 False u0) = Inr True"
    and "snd (snd (load ext0 s0 p0 conf0 False u0)) = conf0"
    by (auto simp: load_cached_def)
qed

theorem load_resets_normalization_witness:
  "cache (init []) = []
   \<and> normalization (ex_config\<lparr>normalization := Some (IntId 15)\<rparr>) = Some (IntId 15)
   \<and> normalization (snd (snd (load ex_ext (init []) ''17''
        (ex_config\<lparr>normalization := Some (IntId 15)\<rparr>) False True))) = None
   \<and> (\<exists>m\<in>set (cache ex_cached). file_path (heap ex_cached m) = normalize_path ex_ext ''17'')
   \<and> load ex_ext ex_cached ''17'' (ex_config\<lparr>normalization := Some (IntId 15)\<rparr>) True True
       = load ex_ext ex_cached ''17'' ex_config True True
   \<and> fst (load ex_ext ex_cached ''17'' (ex_config\<lparr>normalization := Some (IntId 15)\<rparr>) False True)
       = Inr True
   \<and> snd (snd (load ex_ext ex_cached ''17''
        (ex_config\<lparr>normalization := Some (IntId 15)\<rparr>) False True))
       = ex_config\<lparr>normalization := Some (IntId 15)\<rparr>"
proof -
  let ?c = "ex_config\<lparr>normalization := Some (IntId 15)\<rparr>"
  have h: "\<forall>m\<in>set (cache (init [])). file_path (heap (init []) m) \<noteq> normalize_path ex_ext ''17''"
    by (simp add: init_def)
  have h0: "\<exists>m\<in>set (cache ex_cached). file_path (heap ex_cached m) = normalize_path ex_ext ''17''"
    by (simp add: ex_cached_def ex_defs)
  have n: "?c\<lparr>normalization := None\<rparr> = ex_config" by (simp add: ex_config_def)
  from load_resets_normalization
         [where s = "init []" and ext = ex_ext and p = "''17''" and conf = ?c and force = False
            and u = True and ?s0.0 = ex_cached and ?ext0.0 = ex_ext and ?p0.0 = "''17''"
            and ?conf0.0 = ?c and ?u0.0 = True] h h0
  have a: "snd (snd (load ex_ext (init []) ''17'' ?c False True))
            = snd (load_file ex_ext (normalize_path ex_ext ''17'') (?c\<lparr>normalization := None\<rparr>) True)"
    and b: "fst (load ex_ext ex_cached ''17'' ?c False True) = Inr True"
    "snd (snd (load ex_ext ex_cached ''17'' ?c False True)) = ?c"
    by blast+
  from load_resets_normalization
         [where s = ex_cached and ext = ex_ext and p = "''17''" and conf = ?c and force = True
            and u = True]
  have c: "load ex_ext ex_cached ''17'' ?c True True = load ex_ext ex_cached ''17'' ex_config True True"
    by (simp add: n)
  from a have "normalization (snd (snd (load ex_ext (init []) ''17'' ?c False True))) = None"
    by (simp add: ex_ext_def)
  moreover have "cache (init []) = []" by (simp add: init_def)
  ultimately show ?thesis using h0 b c by simp
qed

text \<open>
  C9: a path that is not in the cache is loaded twice with \<open>force\<close> off. The first call,
  when it returns, returns \<open>False\<close>; the second returns \<open>True\<close>; after both calls the
  active measurement is the same object, which is the one cache entry of that path.
\<close>

theorem load_twice_same_object:
  assumes "\<forall>m\<in>set (cache s). file_path (heap s m) \<noteq> normalize_path ext p"
    and "load ext s p conf False u = (Inr b, s1, conf1)"
  shows "b = False
     \<and> (\<exists>m. nexus_data s1 = Some m \<and> m \<in> set (cache s1)
          \<and> file_path (heap s1 m) = normalize_path ext p
          \<and> (\<forall>m'\<in>set (cache s1). file_path (heap s1 m') = normalize_path ext p \<longrightarrow> m' = m)
          \<and> (\<forall>conf' u'. \<exists>s2. load ext s1 p conf' False u' = (Inr True, s2, conf')
                \<and> nexus_data s2 = Some m \<and> cache s2 = cache s1 \<and> heap s2 = heap s1))"
proof -
  let ?path = "normalize_path ext p" and ?m = "next_ref s"
  from assms have ln: "load_new ext s ?path conf u None None = (Inr b, s1, conf1)"
    by (simp add: load_miss)
  note r = load_new_returns [OF ln]
  have m_in: "?m \<in> set (cache s1)" using r(4) by simp
  have uniq: "\<forall>m'\<in>set (cache s1). file_path (heap s1 m') = ?path \<longrightarrow> m' = ?m"
  proof (intro ballI impI, rule ccontr)
    fix m' assume m': "m' \<in> set (cache s1)" "file_path (heap s1 m') = ?path" "m' \<noteq> ?m"
    with r(4) evict_subset [of "cache s"] have "m' \<in> set (cache s)" by auto
    moreover from m'(3) r(6) have "heap s1 m' = heap s m'" by simp
    ultimately show False using assms(1) m'(2) by auto
  qed
  have second: "\<exists>s2. load ext s1 p conf' False u' = (Inr True, s2, conf')
                \<and> nexus_data s2 = Some ?m \<and> cache s2 = cache s1 \<and> heap s2 = heap s1"
    for conf' u'
  proof -
    from load_hit [OF m_in r(5), of conf' u'] uniq
    have "load ext s1 p conf' False u' = load_cached ext s1 ?path conf' ?m" by auto
    then show ?thesis by (simp add: load_cached_def activate_frame)
  qed
  from r(1) r(2) m_in r(5) uniq second show ?thesis by blast
qed

theorem load_twice_same_object_witness:
  "cache (init []) = []
   \<and> fst (load ex_ext (init []) ''17'' ex_config False True) = Inr False
   \<and> nexus_data ex_loaded = Some 0 \<and> cache ex_loaded = [0]
   \<and> fst (load ex_ext ex_loaded ''17'' ex_config False True) = Inr True
   \<and> nexus_data (fst (snd (load ex_ext ex_loaded ''17'' ex_config False True))) = Some 0
   \<and> cache (fst (snd (load ex_ext ex_loaded ''17'' ex_config False True))) = [0]"
proof -
  have e: "load ex_ext (init []) ''17'' ex_config False True =
    (Inr False,
     (init [])\<lparr>heap := (\<lambda>_. no_data)(0 := ex_measurement ''17''), next_ref := 1,
       current_file_name := Some ''17'', nexus_data := Some 0,
       active_channel := Some (0, ''Off_Off''), cache := [0]\<rparr>,
     ex_config)"
    by (simp add: load_defs Let_def ex_defs py_int_defs evict_short MAX_CACHE_def)
  have h: "\<forall>m\<in>set (cache (init [])). file_path (heap (init []) m) \<noteq> normalize_path ex_ext ''17''"
    by (simp add: init_def)
  have l: "load ex_ext (init []) ''17'' ex_config False True = (Inr False, ex_loaded, ex_config)"
    by (simp add: ex_loaded_def e)
  from load_twice_same_object [OF h l] obtain m where
    m: "nexus_data ex_loaded = Some m"
       "\<forall>conf' u'. \<exists>s2. load ex_ext ex_loaded ''17'' conf' False u' = (Inr True, s2, conf')
          \<and> nexus_data s2 = Some m \<and> cache s2 = cache ex_loaded \<and> heap s2 = heap ex_loaded"
    by blast
  from m(2) obtain s2 where
    s2: "load ex_ext ex_loaded ''17'' ex_config False True = (Inr True, s2, ex_config)"
        "nexus_data s2 = Some m" "cache s2 = cache ex_loaded"
    by blast
  have v: "nexus_data ex_loaded = Some 0" "cache ex_loaded = [0]"
    by (simp_all add: ex_loaded_def e)
  from e have "fst (load ex_ext (init []) ''17'' ex_config False True) = Inr False" by simp
  moreover have "cache (init []) = []" by (simp add: init_def)
  ultimately show ?thesis using m(1) s2 v by simp
qed

section \<open>The cache: results\<close>

lemma evict_drop_all: "evict c = drop (Suc (length c) - MAX_CACHE) c"
proof (induction c rule: evict.induct)
  case (1 c)
  show ?case
  proof (cases "length c \<ge> MAX_CACHE")
    case True
    then have "evict c = evict (tl c)" by (subst evict.simps) simp
    also have "\<dots> = drop (Suc (length (tl c)) - MAX_CACHE) (tl c)" by (rule "1.IH" [OF True])
    also have "\<dots> = drop (Suc (Suc (length (tl c)) - MAX_CACHE)) c" by (simp add: drop_Suc)
    also have "Suc (Suc (length (tl c)) - MAX_CACHE) = Suc (length c) - MAX_CACHE"
      using True by (auto simp: MAX_CACHE_def)
    finally show ?thesis .
  next
    case False
    then show ?thesis by (subst evict.simps) simp
  qed
qed

lemma pop_in_front:
  assumes "c = old @ drop n hist" "i < length c" "c ! i \<notin> set hist"
  shows "i < length old" "pop c i = pop old i @ drop n hist"
proof -
  show i: "i < length old"
  proof (rule ccontr)
    assume "\<not> i < length old"
    with assms(1,2) have "c ! i = drop n hist ! (i - length old)" "i - length old < length (drop n hist)"
      by (auto simp: nth_append)
    then have "c ! i \<in> set (drop n hist)" by (metis nth_mem)
    with assms(3) show False by (auto dest: in_set_dropD)
  qed
  then show "pop c i = pop old i @ drop n hist" using assms(1) by (simp add: pop_def)
qed

lemma cache_shape_step:
  assumes "c = old @ drop n hist" "n \<le> length hist"
    "n = 0 \<or> (old = [] \<and> length c = MAX_CACHE)"
    "c1 = c \<or> (\<exists>i<length c. c1 = pop c i \<and> c ! i \<notin> set hist)"
  shows "length (evict c1 @ [m]) \<le> MAX_CACHE"
    and "\<exists>old' n'. evict c1 @ [m] = old' @ drop n' (hist @ [m]) \<and> n' \<le> length (hist @ [m])
           \<and> (n' = 0 \<or> (old' = [] \<and> length (evict c1 @ [m]) = MAX_CACHE))"
proof -
  let ?e = "Suc (length c1) - MAX_CACHE"
  have e: "?e \<le> length c1" by (simp add: MAX_CACHE_def)
  show "length (evict c1 @ [m]) \<le> MAX_CACHE"
    by (simp add: evict_drop_all) (simp add: MAX_CACHE_def)
  obtain old1 where c1: "c1 = old1 @ drop n hist"
    and n1: "n = 0 \<or> (old1 = [] \<and> length c1 = MAX_CACHE)"
  proof (cases "c1 = c")
    case True
    with assms(1,3) that show ?thesis by blast
  next
    case False
    with assms(4) obtain i where i: "i < length c" "c1 = pop c i" "c ! i \<notin> set hist" by blast
    from pop_in_front [OF assms(1) i(1,3)] have p: "i < length old" "pop c i = pop old i @ drop n hist" .
    from p(1) have "old \<noteq> []" by auto
    with assms(3) have "n = 0" by blast
    with p(2) i(2) that show ?thesis by blast
  qed
  let ?old' = "drop ?e old1" and ?n' = "?e - length old1 + n"
  have len1: "length c1 = length old1 + (length hist - n)" by (simp add: c1)
  have n': "?n' \<le> length hist" using e assms(2) len1 by linarith
  have "evict c1 @ [m] = ?old' @ drop ?n' hist @ [m]"
    by (simp add: evict_drop_all c1 add.commute)
  also have "drop ?n' hist @ [m] = drop ?n' (hist @ [m])" using n' by simp
  finally have eq: "evict c1 @ [m] = ?old' @ drop ?n' (hist @ [m])" .
  have "?n' = 0 \<or> (?old' = [] \<and> length (evict c1 @ [m]) = MAX_CACHE)"
  proof (cases "?n' = 0")
    case True
    then show ?thesis by blast
  next
    case False
    have "MAX_CACHE \<le> length c1"
    proof (cases "n = 0")
      case True
      with False have "?e > 0" by simp
      then show ?thesis by simp
    next
      case False
      with n1 show ?thesis by simp
    qed
    moreover have "?old' = []"
    proof (cases "n = 0")
      case True
      with False have "?e > length old1" by simp
      then show ?thesis by simp
    next
      case False
      with n1 show ?thesis by simp
    qed
    ultimately show ?thesis by (simp add: evict_drop_all) (simp add: MAX_CACHE_def)
  qed
  with eq n' show "\<exists>old' n'. evict c1 @ [m] = old' @ drop n' (hist @ [m]) \<and> n' \<le> length (hist @ [m])
           \<and> (n' = 0 \<or> (old' = [] \<and> length (evict c1 @ [m]) = MAX_CACHE))"
    by (intro exI [of _ ?old'] exI [of _ ?n']) simp
qed

lemma load_insert_step:
  assumes "load ext s p conf force u = (Inr False, s', conf')"
  shows "nexus_data s' = Some (next_ref s)" "next_ref s' = Suc (next_ref s)"
    "file_path (heap s' (next_ref s)) = normalize_path ext p"
    "\<forall>m. m \<noteq> next_ref s \<longrightarrow> heap s' m = heap s m"
    "\<exists>c1. cache s' = evict c1 @ [next_ref s]
       \<and> (c1 = cache s
          \<or> (\<exists>i<length (cache s). c1 = pop (cache s) i
                \<and> file_path (heap s (cache s ! i)) = normalize_path ext p))"
proof -
  let ?P = "\<lambda>m. file_path (heap s m) = normalize_path ext p"
  have "\<exists>c1. load_new ext (s\<lparr>cache := c1\<rparr>) (normalize_path ext p) conf u
                 (if c1 = cache s then None else find_data_in_reduction_list s (cache s ! the (index_where ?P (cache s))))
                 (if c1 = cache s then None else find_data_in_direct_beam_list s (cache s ! the (index_where ?P (cache s))))
              = (Inr False, s', conf')
       \<and> (c1 = cache s \<or> (\<exists>i<length (cache s). c1 = pop (cache s) i \<and> ?P (cache s ! i)))"
  proof (cases "index_where ?P (cache s)")
    case None
    with assms show ?thesis by (intro exI [of _ "cache s"]) (simp add: load_def Let_def)
  next
    case (Some i)
    from index_where_Some [OF Some] have i: "i < length (cache s)" "?P (cache s ! i)" by auto
    from assms Some have f: force by (auto simp: load_def Let_def load_cached_def split: if_splits)
    show ?thesis
    proof (cases "pop (cache s) i = cache s")
      case True
      have "length (pop (cache s) i) < length (cache s)" using i(1) by (simp add: pop_def)
      with True show ?thesis by simp
    next
      case False
      with assms Some f i show ?thesis
        by (intro exI [of _ "pop (cache s) i"]) (auto simp: load_def Let_def)
    qed
  qed
  then obtain c1 rid did where
    ln: "load_new ext (s\<lparr>cache := c1\<rparr>) (normalize_path ext p) conf u rid did = (Inr False, s', conf')"
    and c1: "c1 = cache s \<or> (\<exists>i<length (cache s). c1 = pop (cache s) i \<and> ?P (cache s ! i))"
    by blast
  note r = load_new_returns [OF ln]
  from r(2,3,5,6) show "nexus_data s' = Some (next_ref s)" "next_ref s' = Suc (next_ref s)"
    "file_path (heap s' (next_ref s)) = normalize_path ext p"
    "\<forall>m. m \<noteq> next_ref s \<longrightarrow> heap s' m = heap s m" by simp_all
  from r(4) c1 show "\<exists>c1. cache s' = evict c1 @ [next_ref s]
       \<and> (c1 = cache s
          \<or> (\<exists>i<length (cache s). c1 = pop (cache s) i
                \<and> file_path (heap s (cache s ! i)) = normalize_path ext p))"
    by auto
qed

lemma insertions_Cons:
  assumes "insertions ext s ((p, conf, force, u) # calls) = Some res"
  shows "\<exists>s' conf' m res'. load ext s p conf force u = (Inr False, s', conf')
           \<and> nexus_data s' = Some m \<and> insertions ext s' calls = Some res'
           \<and> res = (m, s') # res'"
  using assms by (auto split: prod.splits sum.splits bool.splits option.splits)

lemma insertions_shape:
  assumes "insertions ext s calls = Some res"
    and "distinct (map (\<lambda>c. normalize_path ext (fst c)) calls)"
    and "cache s = old @ drop n hist" "n \<le> length hist"
    and "n = 0 \<or> (old = [] \<and> length (cache s) = MAX_CACHE)"
    and "\<forall>m\<in>set hist. \<forall>c\<in>set calls. file_path (heap s m) \<noteq> normalize_path ext (fst c)"
  shows "length res = length calls \<and> map fst res = [next_ref s..<next_ref s + length calls]
    \<and> (\<forall>j<length res. length (cache (snd (res ! j))) \<le> MAX_CACHE
         \<and> (\<exists>old' n'. cache (snd (res ! j)) = old' @ drop n' (hist @ take (Suc j) (map fst res))
               \<and> (n' = 0 \<or> (old' = [] \<and> length (cache (snd (res ! j))) = MAX_CACHE))))"
  using assms
proof (induction calls arbitrary: s res old n hist)
  case Nil
  then show ?case by simp
next
  case (Cons call calls)
  obtain p conf force u where call: "call = (p, conf, force, u)" by (cases call)
  from insertions_Cons [OF Cons.prems(1) [unfolded call]] obtain s' conf' m res' where
    l: "load ext s p conf force u = (Inr False, s', conf')" "nexus_data s' = Some m"
       "insertions ext s' calls = Some res'" "res = (m, s') # res'" by blast
  note st = load_insert_step [OF l(1)]
  from st(1) l(2) have m: "m = next_ref s" by simp
  from st(5) obtain c1 where c1: "cache s' = evict c1 @ [m]"
    "c1 = cache s \<or> (\<exists>i<length (cache s). c1 = pop (cache s) i
        \<and> file_path (heap s (cache s ! i)) = normalize_path ext p)"
    using m by blast
  have "c1 = cache s \<or> (\<exists>i<length (cache s). c1 = pop (cache s) i \<and> cache s ! i \<notin> set hist)"
    using c1(2) Cons.prems(6) call by auto
  note sh = cache_shape_step [OF Cons.prems(3,4,5) this, of m]
  from sh(2) [folded c1(1)] obtain old' n' where
    o': "cache s' = old' @ drop n' (hist @ [m])" "n' \<le> length (hist @ [m])"
        "n' = 0 \<or> (old' = [] \<and> length (cache s') = MAX_CACHE)" by blast
  have d': "distinct (map (\<lambda>c. normalize_path ext (fst c)) calls)" using Cons.prems(2) by simp
  have fresh: "\<forall>c\<in>set calls. normalize_path ext p \<noteq> normalize_path ext (fst c)"
    using Cons.prems(2) call by auto
  have paths': "\<forall>m'\<in>set (hist @ [m]). \<forall>c\<in>set calls.
                  file_path (heap s' m') \<noteq> normalize_path ext (fst c)"
  proof
    fix m' assume m': "m' \<in> set (hist @ [m])"
    show "\<forall>c\<in>set calls. file_path (heap s' m') \<noteq> normalize_path ext (fst c)"
    proof (cases "m' = m")
      case True
      with st(3) m fresh show ?thesis by simp
    next
      case False
      with m' have "m' \<in> set hist" by simp
      moreover from False st(4) m have "heap s' m' = heap s m'" by simp
      ultimately show ?thesis using Cons.prems(6) by simp
    qed
  qed
  from Cons.IH [OF l(3) d' o'(1,2,3) paths'] have
    ih: "length res' = length calls" "map fst res' = [next_ref s'..<next_ref s' + length calls]"
      "\<forall>j<length res'. length (cache (snd (res' ! j))) \<le> MAX_CACHE
         \<and> (\<exists>old' n'. cache (snd (res' ! j))
                = old' @ drop n' ((hist @ [m]) @ take (Suc j) (map fst res'))
               \<and> (n' = 0 \<or> (old' = [] \<and> length (cache (snd (res' ! j))) = MAX_CACHE)))"
    by blast+
  have A: "length res = length (call # calls)" using ih(1) l(4) by simp
  have B: "map fst res = [next_ref s..<next_ref s + length (call # calls)]"
    using ih(2) l(4) m st(2) by (simp add: upt_rec)
  have C: "length (cache (snd (res ! j))) \<le> MAX_CACHE
         \<and> (\<exists>old' n'. cache (snd (res ! j)) = old' @ drop n' (hist @ take (Suc j) (map fst res))
               \<and> (n' = 0 \<or> (old' = [] \<and> length (cache (snd (res ! j))) = MAX_CACHE)))"
    if j: "j < length res" for j
  proof (cases j)
    case 0
    from sh(1) c1(1) have "length (cache s') \<le> MAX_CACHE" by simp
    with 0 l(4) o'(1,3) show ?thesis by auto
  next
    case (Suc j')
    with j l(4) have j': "j' < length res'" by simp
    have "(hist @ [m]) @ take (Suc j') (map fst res') = hist @ take (Suc j) (map fst res)"
      using Suc l(4) by simp
    with ih(3) j' Suc l(4) show ?thesis by auto
  qed
  from A B C show ?case by blast
qed

text \<open>
  C1: more than \<open>MAX_CACHE\<close> calls of \<open>load\<close> with distinct normalised paths, each of which
  inserts a measurement (none is served from the cache). Afterwards the cache holds
  exactly the \<open>MAX_CACHE\<close> measurements inserted last, in insertion order. After every
  call the cache has at most \<open>MAX_CACHE\<close> entries and ends with the measurements inserted
  so far, in insertion order, all of them as long as an older entry is left: the oldest
  are evicted first. The inserted measurements are new objects, one per call.
\<close>

theorem cache_keeps_most_recent:
  assumes "insertions ext s calls = Some res"
    and "distinct (map (\<lambda>c. normalize_path ext (fst c)) calls)"
    and "MAX_CACHE < length calls"
  shows "cache (snd (last res)) = drop (length calls - MAX_CACHE) (map fst res)
     \<and> length (cache (snd (last res))) = MAX_CACHE
     \<and> length res = length calls
     \<and> map fst res = [next_ref s..<next_ref s + length calls]
     \<and> (\<forall>j<length res.
           length (cache (snd (res ! j))) \<le> MAX_CACHE
         \<and> (\<exists>old n. cache (snd (res ! j)) = old @ drop n (take (Suc j) (map fst res))
               \<and> (n = 0 \<or> old = [])))"
proof -
  have "length res = length calls \<and> map fst res = [next_ref s..<next_ref s + length calls]
    \<and> (\<forall>j<length res. length (cache (snd (res ! j))) \<le> MAX_CACHE
         \<and> (\<exists>old' n'. cache (snd (res ! j)) = old' @ drop n' ([] @ take (Suc j) (map fst res))
               \<and> (n' = 0 \<or> (old' = [] \<and> length (cache (snd (res ! j))) = MAX_CACHE))))"
    by (rule insertions_shape [OF assms(1,2), of "cache s" 0 "[]"]) simp_all
  then have c: "length res = length calls"
    "map fst res = [next_ref s..<next_ref s + length calls]"
    "\<forall>j<length res. length (cache (snd (res ! j))) \<le> MAX_CACHE
         \<and> (\<exists>old' n'. cache (snd (res ! j)) = old' @ drop n' (take (Suc j) (map fst res))
               \<and> (n' = 0 \<or> (old' = [] \<and> length (cache (snd (res ! j))) = MAX_CACHE)))"
    unfolding append_Nil by blast+
  let ?k = "length calls"
  from assms(3) c(1) have ne: "res \<noteq> []" by auto
  then have lst: "last res = res ! (?k - 1)" using c(1) by (simp add: last_conv_nth)
  have k1: "?k - 1 < length res" using c(1) assms(3) by simp
  have tk: "take (Suc (?k - 1)) (map fst res) = map fst res" using c(1) by simp
  from c(3) k1 lst tk obtain old n where
    f: "length (cache (snd (last res))) \<le> MAX_CACHE"
       "cache (snd (last res)) = old @ drop n (map fst res)"
       "n = 0 \<or> (old = [] \<and> length (cache (snd (last res))) = MAX_CACHE)"
    by (metis (no_types, lifting))
  have "n \<noteq> 0"
  proof
    assume "n = 0"
    with f(2) have "length (cache (snd (last res))) \<ge> length res" by simp
    with f(1) c(1) assms(3) show False by simp
  qed
  with f(3) have o: "old = []" and len: "length (cache (snd (last res))) = MAX_CACHE" by auto
  from o f(2) len c(1) have "?k - n = MAX_CACHE" by simp
  then have "n = ?k - MAX_CACHE" by (simp add: MAX_CACHE_def)
  with o f(2) have final: "cache (snd (last res)) = drop (?k - MAX_CACHE) (map fst res)" by simp
  have every: "\<forall>j<length res.
           length (cache (snd (res ! j))) \<le> MAX_CACHE
         \<and> (\<exists>old n. cache (snd (res ! j)) = old @ drop n (take (Suc j) (map fst res))
               \<and> (n = 0 \<or> old = []))"
    using c(3) by blast
  from final len c(1,2) every show ?thesis by blast
qed

text \<open>With the collaborators \<open>ex_ext\<close>, calls that ask for no direct beam all insert.\<close>

lemma ex_load_new:
  assumes "\<not> match_direct_beam conf"
  shows "\<exists>s'. load_new ex_ext s path conf u rid did = (Inr False, s', conf\<lparr>normalization := None\<rparr>)"
  using assms by (simp add: load_new_def ex_ext_def Let_def)

lemma load_insert_cache_subset:
  assumes "load ext s p conf force u = (Inr False, s', conf')"
  shows "set (cache s') \<subseteq> insert (next_ref s) (set (cache s))"
proof -
  from load_insert_step(5) [OF assms] obtain c1 where
    c1: "cache s' = evict c1 @ [next_ref s]"
        "c1 = cache s \<or> (\<exists>i<length (cache s). c1 = pop (cache s) i)" by blast
  have "set (pop (cache s) i) \<subseteq> set (cache s)" for i
    using set_take_subset [of i "cache s"] set_drop_subset [of "Suc i" "cache s"]
    by (auto simp: pop_def)
  with c1(2) have "set c1 \<subseteq> set (cache s)" by auto
  with evict_subset [of c1] c1(1) show ?thesis by auto
qed

lemma ex_insertions:
  assumes "distinct (map fst calls)"
    and "\<forall>m\<in>set (cache s). \<forall>c\<in>set calls. file_path (heap s m) \<noteq> fst c"
    and "\<forall>c\<in>set calls. \<not> match_direct_beam (fst (snd c))"
  shows "\<exists>res. insertions ex_ext s calls = Some res"
  using assms
proof (induction calls arbitrary: s)
  case Nil
  then show ?case by simp
next
  case (Cons call calls)
  obtain p conf force u where call: "call = (p, conf, force, u)" by (cases call)
  have n: "normalize_path ex_ext p = p" by (simp add: ex_ext_def)
  have miss: "\<forall>m\<in>set (cache s). file_path (heap s m) \<noteq> normalize_path ex_ext p"
    using Cons.prems(2) call n by auto
  from Cons.prems(3) call have "\<not> match_direct_beam conf" by simp
  from ex_load_new [OF this] miss obtain s' where
    l: "load ex_ext s p conf force u = (Inr False, s', conf\<lparr>normalization := None\<rparr>)"
    by (metis load_miss)
  note st = load_insert_step [OF l]
  have "\<exists>res. insertions ex_ext s' calls = Some res"
  proof (rule Cons.IH)
    show "distinct (map fst calls)" using Cons.prems(1) by simp
    show "\<forall>c\<in>set calls. \<not> match_direct_beam (fst (snd c))" using Cons.prems(3) by simp
    show "\<forall>m\<in>set (cache s'). \<forall>c\<in>set calls. file_path (heap s' m) \<noteq> fst c"
    proof
      fix m assume m: "m \<in> set (cache s')"
      show "\<forall>c\<in>set calls. file_path (heap s' m) \<noteq> fst c"
      proof (cases "m = next_ref s")
        case True
        with st(3) n Cons.prems(1) call show ?thesis by auto
      next
        case False
        with m load_insert_cache_subset [OF l] have "m \<in> set (cache s)" by auto
        moreover from False st(4) have "heap s' m = heap s m" by simp
        ultimately show ?thesis using Cons.prems(2) by simp
      qed
    qed
  qed
  then obtain res where "insertions ex_ext s' calls = Some res" ..
  with l st(1) call show ?case by simp
qed

theorem cache_keeps_most_recent_witness:
  "distinct (map (\<lambda>c. normalize_path ex_ext (fst c)) ex_calls)
   \<and> MAX_CACHE < length ex_calls
   \<and> map_option (\<lambda>res. cache (snd (last res))) (insertions ex_ext (init []) ex_calls)
       = Some [1..<51]"
proof -
  have d: "distinct (map fst ex_calls)" by (simp add: ex_calls_def)
  then have h2: "distinct (map (\<lambda>c. normalize_path ex_ext (fst c)) ex_calls)"
    by (simp add: ex_ext_def)
  have h3: "MAX_CACHE < length ex_calls" by (simp add: ex_calls_def MAX_CACHE_def)
  have "\<exists>res. insertions ex_ext (init []) ex_calls = Some res"
  proof (rule ex_insertions [OF d])
    show "\<forall>m\<in>set (cache (init [])). \<forall>c\<in>set ex_calls. file_path (heap (init []) m) \<noteq> fst c"
      by (simp add: init_def)
    show "\<forall>c\<in>set ex_calls. \<not> match_direct_beam (fst (snd c))" by (simp add: ex_calls_def)
  qed
  then obtain res where h1: "insertions ex_ext (init []) ex_calls = Some res" ..
  from cache_keeps_most_recent [OF h1 h2 h3]
  have c: "cache (snd (last res)) = drop (length ex_calls - MAX_CACHE) (map fst res)"
    and m: "map fst res = [next_ref (init [])..<next_ref (init []) + length ex_calls]" by blast+
  have k: "length ex_calls = 51" by (simp add: ex_calls_def)
  have n: "next_ref (init []) = 0" by (simp add: init_def)
  have "cache (snd (last res)) = drop (51 - 50) [0..<0 + 51]"
    using c unfolding m k n MAX_CACHE_def .
  also have "\<dots> = [0 + (51 - 50)..<0 + 51]" by (simp only: drop_upt)
  also have "\<dots> = [1..<51]" by simp
  finally have "map_option (\<lambda>res. cache (snd (last res))) (insertions ex_ext (init []) ex_calls)
       = Some [1..<51]"
    by (simp only: h1 option.map)
  with h2 h3 show ?thesis by blast
qed

end
